theory Spec2Isabelle
  imports Main "HOL-Library.Sublist"
begin

section \<open>Python values used by the organizer\<close>

text \<open>
  Strings are byte lists. \<open>str.lower\<close> is modelled on ASCII letters; \<open>sub in s\<close> is the
  substring test; \<open>str(n)\<close> of a non-negative integer is its decimal numeral.
\<close>

definition lower_char :: "char \<Rightarrow> char" where
  "lower_char c =
     (let n = (of_char c :: nat) in if 65 \<le> n \<and> n \<le> 90 then char_of (n + 32) else c)"

definition lower :: "string \<Rightarrow> string" where
  "lower s = map lower_char s"

fun py_in :: "string \<Rightarrow> string \<Rightarrow> bool" where
  "py_in sub [] = (sub = [])"
| "py_in sub (c # cs) = (prefix sub (c # cs) \<or> py_in sub cs)"

definition digit_char :: "nat \<Rightarrow> char" where
  "digit_char d = char_of (48 + d)"

function str_nat :: "nat \<Rightarrow> string" where
  "str_nat n = (if n < 10 then [digit_char n] else str_nat (n div 10) @ [digit_char (n mod 10)])"
  by pat_completeness auto
termination
  by (relation "measure id") auto

declare str_nat.simps [simp del]

lemma str_nat_not_Nil: "str_nat n \<noteq> []"
  by (subst str_nat.simps) simp

lemma digit_char_inj: "a < 10 \<Longrightarrow> b < 10 \<Longrightarrow> digit_char a = digit_char b \<Longrightarrow> a = b"
  by (simp add: digit_char_def char_of_eq_iff take_bit_eq_mod)

lemma str_nat_inj: "str_nat n = str_nat m \<Longrightarrow> n = m"
proof (induction n arbitrary: m rule: str_nat.induct)
  case (1 n)
  show ?case
  proof (cases "n < 10")
    case True
    show ?thesis
    proof (cases "m < 10")
      case mt: True
      with True "1.prems" show ?thesis
        by (simp add: str_nat.simps [of n] str_nat.simps [of m] digit_char_inj)
    next
      case False
      with True "1.prems" str_nat_not_Nil [of "m div 10"] show ?thesis
        by (simp add: str_nat.simps [of n] str_nat.simps [of m])
    qed
  next
    case False
    show ?thesis
    proof (cases "m < 10")
      case True
      with False "1.prems" str_nat_not_Nil [of "n div 10"] show ?thesis
        by (simp add: str_nat.simps [of n] str_nat.simps [of m])
    next
      case mf: False
      from False mf "1.prems" have e: "str_nat (n div 10) = str_nat (m div 10)"
        and d: "digit_char (n mod 10) = digit_char (m mod 10)"
        by (simp_all add: str_nat.simps [of n] str_nat.simps [of m])
      from "1.IH" [OF False e] have "n div 10 = m div 10" .
      moreover from d have "n mod 10 = m mod 10"
        by (auto dest!: digit_char_inj [rotated 2])
      ultimately show ?thesis
        by (metis div_mult_mod_eq)
    qed
  qed
qed


text \<open>
  Exceptions as values. \<open>OSError errno strerror filename\<close> is what the operating system
  calls raise; CPython prints it as \<open>[Errno N] strerror: 'filename'\<close>.
\<close>

datatype exn =
    OSError nat string string
  | ShutilError string
  | ValueError string
  | ReError string
  | SqliteError string

fun str_exn :: "exn \<Rightarrow> string" where
  "str_exn (OSError n s f) = ''[Errno '' @ str_nat n @ ''] '' @ s @ '': '' @ [CHR 0x27] @ f @ [CHR 0x27]"
| "str_exn (ShutilError m) = m"
| "str_exn (ValueError m) = m"
| "str_exn (ReError m) = m"
| "str_exn (SqliteError m) = m"

section \<open>Paths (pathlib, POSIX flavour)\<close>

text \<open>
  A path is the list of its components below the root; every path of the model is
  absolute, as the configuration resolves its folders and the watcher delivers absolute
  paths. \<open>..\<close> components are kept as pathlib keeps them.
\<close>

type_synonym path = "string list"

fun split_slash :: "string \<Rightarrow> string list" where
  "split_slash [] = [[]]"
| "split_slash (c # cs) =
     (if c = CHR ''/'' then [] # split_slash cs
      else (case split_slash cs of [] \<Rightarrow> [[c]] | x # xs \<Rightarrow> (c # x) # xs))"

definition parse_parts :: "string \<Rightarrow> string list" where
  "parse_parts s = filter (\<lambda>c. c \<noteq> [] \<and> c \<noteq> ''.'') (split_slash s)"

definition is_absolute_str :: "string \<Rightarrow> bool" where
  "is_absolute_str s = (case s of [] \<Rightarrow> False | c # _ \<Rightarrow> c = CHR ''/'')"

definition joinpath :: "path \<Rightarrow> string \<Rightarrow> path" where
  "joinpath base s = (if is_absolute_str s then parse_parts s else base @ parse_parts s)"

definition str_path :: "path \<Rightarrow> string" where
  "str_path p = (if p = [] then ''/'' else concat (map (\<lambda>c. CHR ''/'' # c) p))"

definition path_name :: "path \<Rightarrow> string" where
  "path_name p = (if p = [] then [] else last p)"

definition path_parent :: "path \<Rightarrow> path" where
  "path_parent p = butlast p"

definition name_suffix :: "string \<Rightarrow> string" where
  "name_suffix nm =
     (let ext = rev (takeWhile (\<lambda>c. c \<noteq> CHR ''.'') (rev nm))
      in if CHR ''.'' \<in> set nm \<and> ext \<noteq> [] \<and> length ext + 1 < length nm
         then CHR ''.'' # ext else [])"

definition name_stem :: "string \<Rightarrow> string" where
  "name_stem nm = take (length nm - length (name_suffix nm)) nm"

definition path_suffix :: "path \<Rightarrow> string" where
  "path_suffix p = name_suffix (path_name p)"

definition path_stem :: "path \<Rightarrow> string" where
  "path_stem p = name_stem (path_name p)"

section \<open>The operation ledger (database.py)\<close>

record operation =
  op_id :: int
  op_timestamp :: int
  op_filename :: string
  original_path :: string
  destination_path :: string
  op_category :: string
  operation_type :: string
  op_file_size :: nat
  op_file_hash :: "string option"
  success :: bool
  error_message :: "string option"
  can_undo :: bool

record duplicate_hash =
  dh_file_hash :: string
  dh_original_path :: string
  dh_file_size :: nat
  first_seen :: int
  last_seen :: int
  duplicate_count :: nat

record statistic =
  st_date :: int
  st_category :: string
  files_processed :: nat
  total_size :: nat
  duplicates_found :: nat
  errors_count :: nat

text \<open>
  The store: the three tables the pipeline writes, the AUTOINCREMENT counter of
  \<open>file_operations\<close>, and the schedule of persistence failures (\<open>faults\<close>): every
  call opens its own connection and consumes the head of the schedule; \<open>True\<close> means
  that this connection's transaction raises and is rolled back.
\<close>

record database =
  file_operations :: "operation list"
  op_seq :: nat
  duplicate_hashes :: "duplicate_hash list"
  statistics :: "statistic list"
  faults :: "bool list"

definition connection_fails :: "database \<Rightarrow> bool" where
  "connection_fails d = (case faults d of [] \<Rightarrow> False | f # _ \<Rightarrow> f)"


definition get_connection ::
  "database \<Rightarrow> (database \<Rightarrow> 'a \<times> database) \<Rightarrow> (exn + 'a) \<times> database" where
  "get_connection d body =
     (if connection_fails d then (Inl (SqliteError ''database error''), d\<lparr>faults := tl (faults d)\<rparr>)
      else (let (r, d') = body (d\<lparr>faults := tl (faults d)\<rparr>) in (Inr r, d')))"

definition insert_operation ::
  "int \<Rightarrow> string \<Rightarrow> string \<Rightarrow> string \<Rightarrow> string \<Rightarrow> string \<Rightarrow> nat \<Rightarrow> string option \<Rightarrow> bool \<Rightarrow>
   string option \<Rightarrow> database \<Rightarrow> int \<times> database" where
  "insert_operation now fn orig dest cat ty sz h ok err d =
     (let i = int (op_seq d) + 1;
          row = \<lparr>op_id = i, op_timestamp = now, op_filename = fn, original_path = orig,
                 destination_path = dest, op_category = cat, operation_type = ty,
                 op_file_size = sz, op_file_hash = h, success = ok, error_message = err,
                 can_undo = True\<rparr>
      in (i, d\<lparr>file_operations := file_operations d @ [row], op_seq := Suc (op_seq d)\<rparr>))"

definition log_operation ::
  "int \<Rightarrow> database \<Rightarrow> string \<Rightarrow> string \<Rightarrow> string \<Rightarrow> string \<Rightarrow> string \<Rightarrow> nat \<Rightarrow> string option \<Rightarrow>
   bool \<Rightarrow> string option \<Rightarrow> int \<times> database" where
  "log_operation now d fn orig dest cat ty sz h ok err =
     (case get_connection d (insert_operation now fn orig dest cat ty sz h ok err) of
        (Inr operation_id, d') \<Rightarrow> (operation_id, d')
      | (Inl e, d') \<Rightarrow> (- 1, d'))"

section \<open>The file system\<close>

text \<open>
  What the operating system and the format libraries report for one directory entry:
  the \<open>stat\<close> fields, the SHA-256 hex digest of the bytes, whether the file can be opened
  for reading, and what PIL, tesseract, PyPDF2, python-docx and mutagen extract from it
  (empty when the library is missing or fails). Times are microseconds. An entry is
  addressed by the components of its path as they are written; the model has no symbolic
  links and does not resolve a \<open>..\<close> component against the tree.
\<close>

datatype pyval = PyNone | PyBool bool | PyInt int | PyStr string | PyFloat nat nat

record image_data =
  img_basic :: "(string \<times> pyval) list"
  img_exif :: "(string \<times> pyval) list"

record file_info =
  is_dir :: bool
  st_size :: nat
  st_mtime :: int
  sha256 :: string
  readable :: bool
  image :: "image_data option"
  ocr_text :: string
  doc_text :: string
  doc_metadata :: "(string \<times> pyval) list"

type_synonym filesystem = "(path \<times> file_info) list"

definition new_dir :: "int \<Rightarrow> file_info" where
  "new_dir now = \<lparr>is_dir = True, st_size = 4096, st_mtime = now, sha256 = [], readable = True,
                   image = None, ocr_text = [], doc_text = [], doc_metadata = []\<rparr>"

definition path_exists :: "filesystem \<Rightarrow> path \<Rightarrow> bool" where
  "path_exists fs p = (p = [] \<or> map_of fs p \<noteq> None)"

definition path_is_dir :: "filesystem \<Rightarrow> path \<Rightarrow> bool" where
  "path_is_dir fs p = (p = [] \<or> (case map_of fs p of None \<Rightarrow> False | Some f \<Rightarrow> is_dir f))"

definition path_is_file :: "filesystem \<Rightarrow> path \<Rightarrow> bool" where
  "path_is_file fs p = (p \<noteq> [] \<and> (case map_of fs p of None \<Rightarrow> False | Some f \<Rightarrow> \<not> is_dir f))"

definition fs_delete :: "path \<Rightarrow> filesystem \<Rightarrow> filesystem" where
  "fs_delete p fs = filter (\<lambda>(q, _). q \<noteq> p) fs"

definition fs_update :: "path \<Rightarrow> file_info \<Rightarrow> filesystem \<Rightarrow> filesystem" where
  "fs_update p f fs = (p, f) # fs_delete p fs"

text \<open>
  \<open>Path.mkdir(parents=True, exist_ok=True)\<close>, on the reversed path: \<open>os.mkdir\<close> first; an
  existing directory is accepted, an existing file raises; a missing parent is created
  by the recursive call, after which the directory itself is made. A directory listed
  in \<open>ro\<close> refuses new entries.
\<close>

definition os_mkdir :: "filesystem \<Rightarrow> path list \<Rightarrow> int \<Rightarrow> path \<Rightarrow> exn + filesystem" where
  "os_mkdir fs ro now p =
     (if path_exists fs p then Inl (OSError 17 ''File exists'' (str_path p))
      else if \<not> path_exists fs (path_parent p) then
        Inl (OSError 2 ''No such file or directory'' (str_path p))
      else if \<not> path_is_dir fs (path_parent p) then
        Inl (OSError 20 ''Not a directory'' (str_path p))
      else if path_parent p \<in> set ro then Inl (OSError 13 ''Permission denied'' (str_path p))
      else Inr (fs @ [(p, new_dir now)]))"

fun mkdir_rev :: "filesystem \<Rightarrow> path list \<Rightarrow> int \<Rightarrow> string list \<Rightarrow> exn + filesystem" where
  "mkdir_rev fs ro now [] = Inr fs"
| "mkdir_rev fs ro now (c # rp) =
     (case os_mkdir fs ro now (rev (c # rp)) of
        Inr fs' \<Rightarrow> Inr fs'
      | Inl (OSError n s f) \<Rightarrow>
          if n = 2 then
            (case mkdir_rev fs ro now rp of
               Inl e \<Rightarrow> Inl e
             | Inr fs1 \<Rightarrow>
                 (case os_mkdir fs1 ro now (rev (c # rp)) of
                    Inr fs2 \<Rightarrow> Inr fs2
                  | Inl e \<Rightarrow> if path_is_dir fs1 (rev (c # rp)) then Inr fs1 else Inl e))
          else if path_is_dir fs (rev (c # rp)) then Inr fs
          else Inl (OSError n s f)
      | Inl e \<Rightarrow> Inl e)"

definition mkdir_parents :: "filesystem \<Rightarrow> path list \<Rightarrow> int \<Rightarrow> path \<Rightarrow> exn + filesystem" where
  "mkdir_parents fs ro now p = mkdir_rev fs ro now (rev p)"

text \<open>
  \<open>os.rename\<close>. Renaming a path to itself does nothing. A regular file replaces a
  regular file at the target; a directory moves with everything below it, onto a free
  path or an empty directory, and never into itself. Both directories must accept
  changes. The message of the error names both paths.
\<close>

definition rename_tree :: "path \<Rightarrow> path \<Rightarrow> filesystem \<Rightarrow> filesystem" where
  "rename_tree src dst fs =
     map (\<lambda>(q, f). if prefix src q then (dst @ drop (length src) q, f) else (q, f)) fs"

definition rename_names :: "path \<Rightarrow> path \<Rightarrow> string" where
  "rename_names src dst = str_path src @ [CHR 0x27] @ '' -> '' @ [CHR 0x27] @ str_path dst"

definition has_entries :: "filesystem \<Rightarrow> path \<Rightarrow> bool" where
  "has_entries fs d = list_ex (\<lambda>q. strict_prefix d q) (map fst fs)"

definition os_rename :: "filesystem \<Rightarrow> path list \<Rightarrow> path \<Rightarrow> path \<Rightarrow> exn + filesystem" where
  "os_rename fs ro src dst =
     (if src = dst \<and> path_exists fs src then Inr fs
      else
        (case map_of fs src of
           None \<Rightarrow> Inl (OSError 2 ''No such file or directory'' (rename_names src dst))
         | Some f \<Rightarrow>
             if \<not> path_exists fs (path_parent dst) then
               Inl (OSError 2 ''No such file or directory'' (rename_names src dst))
             else if \<not> path_is_dir fs (path_parent dst) then
               Inl (OSError 20 ''Not a directory'' (rename_names src dst))
             else if path_parent src \<in> set ro \<or> path_parent dst \<in> set ro then
               Inl (OSError 13 ''Permission denied'' (rename_names src dst))
             else if is_dir f then
               (if prefix src dst then Inl (OSError 22 ''Invalid argument'' (rename_names src dst))
                else if path_is_file fs dst then
                  Inl (OSError 20 ''Not a directory'' (rename_names src dst))
                else if has_entries fs dst then
                  Inl (OSError 39 ''Directory not empty'' (rename_names src dst))
                else Inr (rename_tree src dst (fs_delete dst fs)))
             else if path_is_dir fs dst then
               Inl (OSError 21 ''Is a directory'' (rename_names src dst))
             else Inr (fs_update dst f (fs_delete src fs))))"

text \<open>
  \<open>shutil.copy2\<close> and \<open>os.unlink\<close>. The source must be a readable regular file. An
  existing regular file at the target is overwritten, also in a directory that accepts
  no new entries; a new file needs a directory that accepts it. The copy carries the
  source's content and times.
\<close>

definition copy2 :: "filesystem \<Rightarrow> path list \<Rightarrow> path \<Rightarrow> path \<Rightarrow> exn + filesystem" where
  "copy2 fs ro src dst =
     (let target = (if path_is_dir fs dst then dst @ [path_name src] else dst)
      in (case map_of fs src of
            None \<Rightarrow> Inl (OSError 2 ''No such file or directory'' (str_path src))
          | Some f \<Rightarrow>
              if src = target then
                Inl (ShutilError ([CHR 0x27] @ str_path src @ [CHR 0x27] @ '' and '' @
                                  [CHR 0x27] @ str_path target @ [CHR 0x27] @ '' are the same file''))
              else if \<not> readable f then Inl (OSError 13 ''Permission denied'' (str_path src))
              else if is_dir f then Inl (OSError 21 ''Is a directory'' (str_path src))
              else if path_is_dir fs target then Inl (OSError 21 ''Is a directory'' (str_path target))
              else if path_exists fs target then Inr (fs_update target f fs)
              else if \<not> path_exists fs (path_parent target) then
                Inl (OSError 2 ''No such file or directory'' (str_path target))
              else if \<not> path_is_dir fs (path_parent target) then
                Inl (OSError 20 ''Not a directory'' (str_path target))
              else if path_parent target \<in> set ro then
                Inl (OSError 13 ''Permission denied'' (str_path target))
              else Inr (fs_update target f fs)))"

definition os_unlink :: "filesystem \<Rightarrow> path list \<Rightarrow> path \<Rightarrow> exn + filesystem" where
  "os_unlink fs ro p =
     (case map_of fs p of
        None \<Rightarrow> Inl (OSError 2 ''No such file or directory'' (str_path p))
      | Some f \<Rightarrow>
          if is_dir f then Inl (OSError 21 ''Is a directory'' (str_path p))
          else if path_parent p \<in> set ro then Inl (OSError 13 ''Permission denied'' (str_path p))
          else Inr (fs_delete p fs))"

text \<open>
  \<open>shutil.move\<close>. A target that is a directory receives the source under its own name,
  unless that name is taken. \<open>os.rename\<close> is tried first; when it raises, a regular file
  is copied to the target and then unlinked, so that an error can leave the copy behind:
  a raise carries the file system as it was left. A directory is never moved into
  itself (\<open>_destinsrc\<close> compares the normalized paths); otherwise its tree is copied and
  the source tree removed, entry by entry in the order the operating system lists them.
  That walk is not modelled: \<open>copytree_rmtree\<close> stands for its result, and nothing is
  known of it.
\<close>

definition normpath :: "path \<Rightarrow> path" where
  "normpath p = foldl (\<lambda>acc c. if c = ''..'' then butlast acc else acc @ [c]) [] p"

definition destinsrc :: "path \<Rightarrow> path \<Rightarrow> bool" where
  "destinsrc src dst = prefix (normpath src) (normpath dst)"

definition copytree_rmtree ::
  "filesystem \<Rightarrow> path list \<Rightarrow> path \<Rightarrow> path \<Rightarrow> (exn \<times> filesystem) + filesystem" where
  "copytree_rmtree = undefined"

definition shutil_move ::
  "filesystem \<Rightarrow> path list \<Rightarrow> path \<Rightarrow> path \<Rightarrow> (exn \<times> filesystem) + filesystem" where
  "shutil_move fs ro src dst =
     (if path_is_dir fs dst \<and> src = dst then
        (case os_rename fs ro src dst of Inl e \<Rightarrow> Inl (e, fs) | Inr fs' \<Rightarrow> Inr fs')
      else
        (let real_dst = (if path_is_dir fs dst \<and> src \<noteq> [] then dst @ [path_name src] else dst)
         in if path_is_dir fs dst \<and> path_exists fs real_dst then
              Inl (ShutilError (''Destination path '' @ [CHR 0x27] @ str_path real_dst @ [CHR 0x27] @
                                '' already exists''), fs)
            else
              (case os_rename fs ro src real_dst of
                 Inr fs' \<Rightarrow> Inr fs'
               | Inl e \<Rightarrow>
                   if path_is_dir fs src then
                     (if destinsrc src dst then
                        Inl (ShutilError (''Cannot move a directory '' @ [CHR 0x27] @ str_path src @
                                          [CHR 0x27] @ '' into itself '' @ [CHR 0x27] @ str_path dst @
                                          [CHR 0x27] @ ''.''), fs)
                      else copytree_rmtree fs ro src real_dst)
                   else
                     (case copy2 fs ro src real_dst of
                        Inl e' \<Rightarrow> Inl (e', fs)
                      | Inr fs1 \<Rightarrow>
                          (case os_unlink fs1 ro src of
                             Inl e' \<Rightarrow> Inl (e', fs1)
                           | Inr fs2 \<Rightarrow> Inr fs2)))))"

text \<open>
  \<open>_get_unique_path\<close>: the candidate itself when it is free, otherwise the first of
  \<open>stem_1.ext\<close>, \<open>stem_2.ext\<close>, ... that does not exist. The new name is a single path
  component, so \<open>parent / name\<close> appends it. The loop of the source has no bound; it
  ends because a file system holds finitely many entries and the candidate names are
  pairwise different.
\<close>

function probe :: "filesystem \<Rightarrow> path \<Rightarrow> string \<Rightarrow> string \<Rightarrow> nat \<Rightarrow> path" where
  "probe fs parent stm sfx counter =
     (let new_path = parent @ [stm @ ''_'' @ str_nat counter @ sfx]
      in if \<not> path_exists fs new_path then new_path
         else probe fs parent stm sfx (Suc counter))"
  by pat_completeness auto
termination
proof (relation "measure (\<lambda>(fs, parent, stm, sfx, counter).
          card {k. counter \<le> k \<and> path_exists fs (parent @ [stm @ ''_'' @ str_nat k @ sfx])})")
  show "wf (measure (\<lambda>(fs, parent, stm, sfx, counter).
          card {k. counter \<le> k \<and> path_exists fs (parent @ [stm @ ''_'' @ str_nat k @ sfx])}))"
    by simp
next
  fix fs :: filesystem and parent :: path and stm sfx :: string and counter :: nat and x :: path
  assume x: "x = parent @ [stm @ ''_'' @ str_nat counter @ sfx]"
    and ex: "\<not> \<not> path_exists fs x"
  let ?c = "\<lambda>k. parent @ [stm @ ''_'' @ str_nat k @ sfx]"
  let ?S = "\<lambda>c. {k. c \<le> k \<and> path_exists fs (?c k)}"
  have inj: "inj ?c"
    by (auto simp: inj_def dest: str_nat_inj)
  have "{k. path_exists fs (?c k)} \<subseteq> ?c -` (fst ` set fs)"
    by (force simp: path_exists_def dest!: map_of_SomeD)
  moreover have "finite (?c -` (fst ` set fs))"
    using inj by (intro finite_vimageI) auto
  ultimately have fin: "finite {k. path_exists fs (?c k)}"
    by (rule finite_subset)
  have f: "finite (?S counter)"
    by (rule finite_subset [OF _ fin]) auto
  have "counter \<in> ?S counter" "counter \<notin> ?S (Suc counter)" "?S (Suc counter) \<subseteq> ?S counter"
    using ex x by auto
  then have "?S (Suc counter) \<subset> ?S counter"
    by blast
  with f have "card (?S (Suc counter)) < card (?S counter)"
    by (rule psubset_card_mono)
  then show "((fs, parent, stm, sfx, Suc counter), (fs, parent, stm, sfx, counter))
      \<in> measure (\<lambda>(fs, parent, stm, sfx, counter).
          card {k. counter \<le> k \<and> path_exists fs (parent @ [stm @ ''_'' @ str_nat k @ sfx])})"
    by simp
qed

definition get_unique_path :: "filesystem \<Rightarrow> path \<Rightarrow> path" where
  "get_unique_path fs p =
     (if \<not> path_exists fs p then p
      else probe fs (path_parent p) (path_stem p) (path_suffix p) 1)"

declare probe.simps [simp del]

section \<open>The fallback classifier (classifier.py)\<close>

definition EXTENSION_RULES :: "(string \<times> string list) list" where
  "EXTENSION_RULES =
     [(''Images'', [''.jpg'', ''.jpeg'', ''.png'', ''.gif'', ''.bmp'', ''.svg'', ''.webp'', ''.ico'']),
      (''Documents'', [''.pdf'', ''.docx'', ''.doc'', ''.txt'', ''.odt'', ''.rtf'']),
      (''Spreadsheets'', [''.xlsx'', ''.xls'', ''.csv'', ''.ods'']),
      (''Presentations'', [''.pptx'', ''.ppt'', ''.odp'']),
      (''Videos'', [''.mp4'', ''.avi'', ''.mkv'', ''.mov'', ''.wmv'', ''.flv'', ''.webm'']),
      (''Audio'', [''.mp3'', ''.wav'', ''.flac'', ''.aac'', ''.ogg'', ''.m4a'', ''.wma'']),
      (''Archives'', [''.zip'', ''.rar'', ''.7z'', ''.tar'', ''.gz'', ''.bz2'']),
      (''Code'', [''.py'', ''.java'', ''.cpp'', ''.c'', ''.js'', ''.ts'', ''.html'', ''.css'', ''.php'']),
      (''Executables'', [''.exe'', ''.msi'', ''.dmg'', ''.app'', ''.deb'', ''.rpm''])]"

definition KEYWORD_RULES :: "(string \<times> string list) list" where
  "KEYWORD_RULES =
     [(''Finance'', [''invoice'', ''bill'', ''receipt'', ''payment'', ''transaction'']),
      (''Education'', [''assignment'', ''homework'', ''project'', ''syllabus'', ''lecture'']),
      (''Work'', [''report'', ''proposal'', ''meeting'', ''presentation'']),
      (''Personal'', [''vacation'', ''family'', ''personal'', ''photo''])]"

fun first_category :: "(string list \<Rightarrow> bool) \<Rightarrow> (string \<times> string list) list \<Rightarrow> string option" where
  "first_category hit [] = None"
| "first_category hit ((category, xs) # rest) =
     (if hit xs then Some category else first_category hit rest)"

definition classify_by_extension :: "path \<Rightarrow> string" where
  "classify_by_extension file =
     (case first_category (\<lambda>extensions. lower (path_suffix file) \<in> set extensions) EXTENSION_RULES of
        Some category \<Rightarrow> category
      | None \<Rightarrow> ''Other'')"

definition classify_by_name :: "path \<Rightarrow> string option" where
  "classify_by_name file =
     first_category (\<lambda>keywords. list_ex (\<lambda>keyword. py_in keyword (lower (path_name file))) keywords)
       KEYWORD_RULES"

definition classify :: "path \<Rightarrow> bool \<Rightarrow> string" where
  "classify file use_ai =
     (case (if use_ai then classify_by_name file else None) of
        Some category \<Rightarrow> if category \<noteq> [] then category else classify_by_extension file
      | None \<Rightarrow> classify_by_extension file)"

section \<open>The content analyzer (content_analyzer.py)\<close>

record analyzer =
  ocr_enabled :: bool
  metadata_enabled :: bool

text \<open>The result dictionary of \<open>analyze_file\<close>; its \<open>confidence\<close> entry is the constant 0.0.\<close>

record analysis =
  content_text :: string
  an_metadata :: "(string \<times> pyval) list"
  an_keywords :: "string list"
  suggested_category :: "string option"

definition dict_get :: "(string \<times> pyval) list \<Rightarrow> string \<Rightarrow> pyval" where
  "dict_get d k = (case map_of d k of None \<Rightarrow> PyNone | Some v \<Rightarrow> v)"

definition dict_set :: "string \<Rightarrow> pyval \<Rightarrow> (string \<times> pyval) list \<Rightarrow> (string \<times> pyval) list" where
  "dict_set k v d = (if k \<in> fst ` set d then map (\<lambda>(k', v'). if k' = k then (k', v) else (k', v')) d
                     else d @ [(k, v)])"

definition truthy :: "pyval \<Rightarrow> bool" where
  "truthy v = (case v of PyNone \<Rightarrow> False | PyBool b \<Rightarrow> b | PyInt i \<Rightarrow> i \<noteq> 0
               | PyStr s \<Rightarrow> s \<noteq> [] | PyFloat n d \<Rightarrow> n \<noteq> 0)"

definition get_file_type :: "path \<Rightarrow> string" where
  "get_file_type file_path =
     (let ext = lower (path_suffix file_path)
      in if ext \<in> set [''.jpg'', ''.jpeg'', ''.png'', ''.gif'', ''.bmp'', ''.tiff''] then ''image''
         else if ext = ''.pdf'' then ''pdf''
         else if ext \<in> set [''.docx'', ''.doc'', ''.txt'', ''.odt''] then ''document''
         else if ext \<in> set [''.mp3'', ''.wav'', ''.flac'', ''.m4a''] then ''audio''
         else if ext \<in> set [''.mp4'', ''.avi'', ''.mkv'', ''.mov''] then ''video''
         else ''unknown'')"

definition copy_exif ::
  "(string \<times> pyval) list \<Rightarrow> string \<Rightarrow> string \<Rightarrow> (string \<times> pyval) list \<Rightarrow> (string \<times> pyval) list" where
  "copy_exif exif tag key md =
     (case map_of exif tag of None \<Rightarrow> md | Some v \<Rightarrow> dict_set key v md)"

definition analyze_image :: "analyzer \<Rightarrow> file_info \<Rightarrow> (string \<times> pyval) list \<times> string" where
  "analyze_image a f =
     (case image f of
        None \<Rightarrow> ([], [])
      | Some img \<Rightarrow>
          (let md0 = img_basic img;
               exif = img_exif img;
               md1 = copy_exif exif ''DateTime'' ''date_taken'' md0;
               md2 = copy_exif exif ''Make'' ''camera_make'' md1;
               md3 = copy_exif exif ''Model'' ''camera_model'' md2;
               md4 = (if ''GPSInfo'' \<in> fst ` set exif then dict_set ''has_gps'' (PyBool True) md3 else md3)
           in (md4, if ocr_enabled a then ocr_text f else [])))"

definition analyze_pdf :: "file_info \<Rightarrow> (string \<times> pyval) list \<times> string" where
  "analyze_pdf f = (doc_metadata f, take 2000 (doc_text f))"

definition analyze_document :: "path \<Rightarrow> file_info \<Rightarrow> (string \<times> pyval) list \<times> string" where
  "analyze_document file_path f =
     (if lower (path_suffix file_path) = ''.txt'' then ([], take 2000 (doc_text f))
      else if lower (path_suffix file_path) \<in> set [''.docx'', ''.doc''] then
        (doc_metadata f, take 2000 (doc_text f))
      else ([], []))"

definition analyze_audio :: "file_info \<Rightarrow> (string \<times> pyval) list" where
  "analyze_audio f = doc_metadata f"

definition analyze_video :: "file_info \<Rightarrow> (string \<times> pyval) list" where
  "analyze_video f = [(''size_mb'', PyFloat (st_size f) (1024 * 1024))]"

definition extract_keywords :: "string \<Rightarrow> string list" where
  "extract_keywords txt =
     (if txt = [] then []
      else filter (\<lambda>term. py_in term (lower txt))
        ([''invoice'', ''receipt'', ''payment'', ''bill'', ''tax'', ''expense'', ''salary'', ''payroll'',
          ''budget''] @
         [''report'', ''presentation'', ''meeting'', ''project'', ''proposal'', ''contract'', ''agreement''] @
         [''vacation'', ''family'', ''personal'', ''birthday'', ''wedding'', ''trip'']))"

definition suggest_category :: "analysis \<Rightarrow> string option" where
  "suggest_category an =
     (if list_ex (\<lambda>kw. kw \<in> set (an_keywords an)) [''invoice'', ''receipt'', ''payment'', ''bill'', ''tax'']
      then Some ''Finance''
      else if list_ex (\<lambda>kw. kw \<in> set (an_keywords an)) [''report'', ''presentation'', ''meeting'', ''project'']
      then Some ''Work''
      else if list_ex (\<lambda>kw. kw \<in> set (an_keywords an)) [''vacation'', ''family'', ''personal'']
      then Some ''Personal''
      else if truthy (dict_get (an_metadata an) ''camera_make'') then Some ''Photos''
      else if content_text an \<noteq> [] \<and> 100 < length (content_text an) then Some ''Scanned Documents''
      else None)"

text \<open>
  \<open>analyze_file\<close> catches every exception itself and always returns the dictionary; a
  path that cannot be read contributes nothing.
\<close>

definition analyze_file :: "analyzer \<Rightarrow> filesystem \<Rightarrow> path \<Rightarrow> analysis" where
  "analyze_file a fs file_path =
     (let file_type = get_file_type file_path;
          (md, txt) =
            (case map_of fs file_path of
               None \<Rightarrow> ([], [])
             | Some f \<Rightarrow>
                 if file_type = ''image'' then analyze_image a f
                 else if file_type = ''pdf'' then analyze_pdf f
                 else if file_type = ''document'' then analyze_document file_path f
                 else if file_type = ''audio'' then (analyze_audio f, [])
                 else if file_type = ''video'' then (analyze_video f, [])
                 else ([], []));
          result = \<lparr>content_text = txt, an_metadata = md, an_keywords = [], suggested_category = None\<rparr>
      in if txt \<noteq> [] then
           (let r1 = result\<lparr>an_keywords := extract_keywords txt\<rparr>
            in r1\<lparr>suggested_category := suggest_category r1\<rparr>)
         else result)"

section \<open>Pattern matching (fnmatch, PurePath.match, re.match)\<close>

text \<open>
  \<open>fnmatch.fnmatchcase name pat\<close> for the wildcards \<open>*\<close> and \<open>?\<close>; every other
  character stands for itself. Bracket expressions never reach it from a rule: a pattern
  with a bracket takes the regular-expression branch.
\<close>

fun fnmatchcase :: "string \<Rightarrow> string \<Rightarrow> bool" where
  "fnmatchcase s [] = (s = [])"
| "fnmatchcase s (p # ps) =
     (if p = CHR ''*'' then
        (fnmatchcase s ps \<or> (case s of [] \<Rightarrow> False | c # t \<Rightarrow> fnmatchcase t (p # ps)))
      else (case s of [] \<Rightarrow> False | c # t \<Rightarrow> (p = CHR ''?'' \<or> p = c) \<and> fnmatchcase t ps))"

text \<open>
  \<open>PurePath.match\<close> (POSIX flavour, which does not fold case): the pattern is parsed as
  a path; a relative pattern is matched component by component from the right against
  the parts of the path, the root being its first part; an absolute pattern must match
  the whole path; a pattern without components raises \<open>ValueError\<close>.
\<close>

definition pattern_root :: "string \<Rightarrow> string" where
  "pattern_root pat =
     (if \<not> is_absolute_str pat then []
      else if take 2 pat = ''//'' \<and> take 3 pat \<noteq> ''///'' then ''//'' else ''/'')"

definition purepath_match :: "path \<Rightarrow> string \<Rightarrow> exn + bool" where
  "purepath_match p pat =
     (let root = pattern_root pat; pat_parts = parse_parts pat
      in if root = [] \<and> pat_parts = [] then Inl (ValueError ''empty pattern'')
         else if root \<noteq> [] \<and> root \<noteq> ''/'' then Inr False
         else if root \<noteq> [] then
           (if length pat_parts \<noteq> length p then Inr False
            else Inr (list_all (\<lambda>(part, pt). fnmatchcase part pt) (zip (rev p) (rev pat_parts))))
         else if length p + 1 < length pat_parts then Inr False
         else Inr (list_all (\<lambda>(part, pt). fnmatchcase part pt)
                     (zip (rev (''/'' # p)) (rev pat_parts))))"

text \<open>
  Regular expressions: the fragment of Python's \<open>re\<close> syntax with literals, \<open>.\<close>,
  character sets, the escapes \<open>\\d \\w \\s \\D \\W \\S\<close> and escaped punctuation, groups,
  alternation, the quantifiers \<open>* + ?\<close> (greedy or lazy) and the anchors \<open>^ $\<close>. Outside
  the fragment (counted repetition, look-around, back-references, inline flags, word
  boundaries, and every pattern the parser below does not read) the model does not say
  what \<open>re.match\<close> does: \<open>re_outside_fragment\<close> stands for Python's answer there, a
  \<open>re.error\<close> or a verdict, and nothing is known of it.
\<close>

datatype cset_item = CChar char | CRange char char | CDigit | CWord | CSpace | CNot cset_item

datatype regex =
    Eps | Chr char | Dot | CSet bool "cset_item list"
  | Cat regex regex | Alt regex regex | Star regex | Bol | Eol

definition upper_char :: "char \<Rightarrow> char" where
  "upper_char c =
     (let n = (of_char c :: nat) in if 97 \<le> n \<and> n \<le> 122 then char_of (n - 32) else c)"

definition is_digit :: "char \<Rightarrow> bool" where
  "is_digit c = (let n = (of_char c :: nat) in 48 \<le> n \<and> n \<le> 57)"

definition is_alpha :: "char \<Rightarrow> bool" where
  "is_alpha c = (let n = (of_char c :: nat) in (65 \<le> n \<and> n \<le> 90) \<or> (97 \<le> n \<and> n \<le> 122))"

definition is_space :: "char \<Rightarrow> bool" where
  "is_space c = (let n = (of_char c :: nat) in n = 32 \<or> (9 \<le> n \<and> n \<le> 13))"

fun in_item :: "char \<Rightarrow> cset_item \<Rightarrow> bool" where
  "in_item c (CChar d) = (c = d)"
| "in_item c (CRange lo hi) = ((of_char lo :: nat) \<le> of_char c \<and> (of_char c :: nat) \<le> of_char hi)"
| "in_item c CDigit = is_digit c"
| "in_item c CWord = (is_alpha c \<or> is_digit c \<or> c = CHR ''_'')"
| "in_item c CSpace = is_space c"
| "in_item c (CNot i) = (\<not> in_item c i)"

definition in_set_ignorecase :: "char \<Rightarrow> cset_item list \<Rightarrow> bool" where
  "in_set_ignorecase c items =
     list_ex (\<lambda>i. in_item c i \<or> in_item (lower_char c) i \<or> in_item (upper_char c) i) items"

fun iter_star :: "nat \<Rightarrow> (string \<Rightarrow> string list) \<Rightarrow> string \<Rightarrow> string list" where
  "iter_star 0 step s = [s]"
| "iter_star (Suc k) step s =
     s # concat (map (iter_star k step) (filter (\<lambda>t. length t < length s) (step s)))"

text \<open>
  \<open>rests r n s\<close>: what can remain of \<open>s\<close> after \<open>r\<close> has matched a prefix of it, with
  \<open>re.IGNORECASE\<close>; \<open>n\<close> is the length of the whole subject, so that \<open>^\<close> holds where
  nothing has been consumed.
\<close>

fun rests :: "regex \<Rightarrow> nat \<Rightarrow> string \<Rightarrow> string list" where
  "rests Eps n s = [s]"
| "rests (Chr c) n s =
     (case s of [] \<Rightarrow> [] | x # t \<Rightarrow> if lower_char x = lower_char c then [t] else [])"
| "rests Dot n s = (case s of [] \<Rightarrow> [] | x # t \<Rightarrow> if x \<noteq> CHR 0x0A then [t] else [])"
| "rests (CSet neg items) n s =
     (case s of [] \<Rightarrow> [] | x # t \<Rightarrow> if in_set_ignorecase x items \<noteq> neg then [t] else [])"
| "rests (Cat a b) n s = concat (map (rests b n) (rests a n s))"
| "rests (Alt a b) n s = rests a n s @ rests b n s"
| "rests (Star a) n s = iter_star (length s) (rests a n) s"
| "rests Bol n s = (if length s = n then [s] else [])"
| "rests Eol n s = (if s = [] \<or> s = [CHR 0x0A] then [s] else [])"

definition escape_class :: "char \<Rightarrow> cset_item option" where
  "escape_class c =
     (if c = CHR ''d'' then Some CDigit else if c = CHR ''w'' then Some CWord
      else if c = CHR ''s'' then Some CSpace else if c = CHR ''D'' then Some (CNot CDigit)
      else if c = CHR ''W'' then Some (CNot CWord) else if c = CHR ''S'' then Some (CNot CSpace)
      else None)"

definition escape_char :: "char \<Rightarrow> char option" where
  "escape_char c =
     (if c = CHR ''n'' then Some (CHR 0x0A) else if c = CHR ''t'' then Some (CHR 0x09)
      else if c = CHR ''r'' then Some (CHR 0x0D) else if c = CHR ''f'' then Some (CHR 0x0C)
      else if c = CHR ''v'' then Some (CHR 0x0B) else if c = CHR ''a'' then Some (CHR 0x07)
      else if is_alpha c \<or> is_digit c then None else Some c)"

fun parse_class :: "string \<Rightarrow> cset_item list \<Rightarrow> (cset_item list \<times> string) option" where
  "parse_class [] acc = None"
| "parse_class (c # cs) acc =
     (if c = CHR '']'' \<and> acc \<noteq> [] then Some (rev acc, cs)
      else if c = CHR 0x5C then
        (case cs of
           [] \<Rightarrow> None
         | e # rest \<Rightarrow>
             (case escape_class e of
                Some i \<Rightarrow> parse_class rest (i # acc)
              | None \<Rightarrow>
                  (case escape_char e of
                     None \<Rightarrow> None
                   | Some x \<Rightarrow> parse_class rest (CChar x # acc))))
      else
        (case cs of
           m # hi # rest \<Rightarrow>
             if m = CHR ''-'' \<and> hi \<noteq> CHR '']'' then
               (if hi = CHR 0x5C \<or> (of_char hi :: nat) < of_char c then None
                else parse_class rest (CRange c hi # acc))
             else parse_class cs (CChar c # acc)
         | _ \<Rightarrow> parse_class cs (CChar c # acc)))"

definition parse_quantifier :: "regex \<Rightarrow> string \<Rightarrow> (regex \<times> string) option" where
  "parse_quantifier a s =
     (case s of
        [] \<Rightarrow> Some (a, [])
      | q # rest \<Rightarrow>
          if q = CHR ''{'' then None
          else if q = CHR ''*'' \<or> q = CHR ''+'' \<or> q = CHR ''?'' then
            (if a = Bol \<or> a = Eol then None
             else
               (let r = (if q = CHR ''*'' then Star a else if q = CHR ''+'' then Cat a (Star a)
                         else Alt a Eps)
                in (case rest of
                      [] \<Rightarrow> Some (r, [])
                    | l # rest' \<Rightarrow>
                        if l = CHR ''?'' then
                          (case rest' of
                             [] \<Rightarrow> Some (r, [])
                           | x # _ \<Rightarrow>
                               if x = CHR ''*'' \<or> x = CHR ''+'' \<or> x = CHR ''?'' \<or> x = CHR ''{''
                               then None else Some (r, rest'))
                        else if l = CHR ''*'' \<or> l = CHR ''+'' \<or> l = CHR ''{'' then None
                        else Some (r, rest))))
          else Some (a, s))"

fun parse_alt :: "nat \<Rightarrow> string \<Rightarrow> (regex \<times> string) option"
  and parse_seq :: "nat \<Rightarrow> string \<Rightarrow> (regex \<times> string) option"
  and parse_atom :: "nat \<Rightarrow> string \<Rightarrow> (regex \<times> string) option" where
  "parse_alt 0 s = None"
| "parse_alt (Suc k) s =
     (case parse_seq k s of
        None \<Rightarrow> None
      | Some (r, rest) \<Rightarrow>
          (case rest of
             [] \<Rightarrow> Some (r, [])
           | c # rest' \<Rightarrow>
               if c = CHR ''|'' then
                 (case parse_alt k rest' of
                    None \<Rightarrow> None
                  | Some (r2, rest2) \<Rightarrow> Some (Alt r r2, rest2))
               else Some (r, rest)))"
| "parse_seq 0 s = None"
| "parse_seq (Suc k) s =
     (case s of
        [] \<Rightarrow> Some (Eps, [])
      | c # cs \<Rightarrow>
          if c = CHR ''|'' \<or> c = CHR '')'' then Some (Eps, s)
          else
            (case parse_atom k s of
               None \<Rightarrow> None
             | Some (a, rest) \<Rightarrow>
                 (case parse_quantifier a rest of
                    None \<Rightarrow> None
                  | Some (a', rest') \<Rightarrow>
                      (case parse_seq k rest' of
                         None \<Rightarrow> None
                       | Some (r, rest'') \<Rightarrow> Some (Cat a' r, rest'')))))"
| "parse_atom 0 s = None"
| "parse_atom (Suc k) s =
     (case s of
        [] \<Rightarrow> None
      | c # cs \<Rightarrow>
          if c = CHR ''('' then
            (let body = (if take 2 cs = ''?:'' then Some (drop 2 cs)
                         else if take 1 cs = ''?'' then None else Some cs)
             in (case body of
                   None \<Rightarrow> None
                 | Some b \<Rightarrow>
                     (case parse_alt k b of
                        None \<Rightarrow> None
                      | Some (r, rest) \<Rightarrow>
                          (case rest of
                             [] \<Rightarrow> None
                           | d # rest' \<Rightarrow> if d = CHR '')'' then Some (r, rest') else None))))
          else if c = CHR ''['' then
            (let neg = (take 1 cs = ''^'')
             in (case parse_class (if neg then drop 1 cs else cs) [] of
                   None \<Rightarrow> None
                 | Some (items, rest) \<Rightarrow> Some (CSet neg items, rest)))
          else if c = CHR ''.'' then Some (Dot, cs)
          else if c = CHR ''^'' then Some (Bol, cs)
          else if c = CHR ''$'' then Some (Eol, cs)
          else if c = CHR 0x5C then
            (case cs of
               [] \<Rightarrow> None
             | e # rest \<Rightarrow>
                 (case escape_class e of
                    Some i \<Rightarrow> Some (CSet False [i], rest)
                  | None \<Rightarrow>
                      (case escape_char e of
                         None \<Rightarrow> None
                       | Some x \<Rightarrow> Some (Chr x, rest))))
          else if c = CHR ''*'' \<or> c = CHR ''+'' \<or> c = CHR ''?'' \<or> c = CHR ''{'' then None
          else Some (Chr c, cs))"

definition re_compile :: "string \<Rightarrow> regex option" where
  "re_compile pat =
     (case parse_alt (3 * length pat + 3) pat of
        Some (r, []) \<Rightarrow> Some r
      | _ \<Rightarrow> None)"

definition re_outside_fragment :: "string \<Rightarrow> string \<Rightarrow> exn + bool" where
  "re_outside_fragment = undefined"

definition re_match_ignorecase :: "string \<Rightarrow> string \<Rightarrow> exn + bool" where
  "re_match_ignorecase pat s =
     (case re_compile pat of
        None \<Rightarrow> re_outside_fragment pat s
      | Some r \<Rightarrow> Inr (rests r (length s) s \<noteq> []))"

section \<open>Floating-point megabytes\<close>

text \<open>
  \<open>size / (1024 * 1024)\<close> is a true division of integers: the correctly rounded double
  of the quotient. The divisor is a power of two, so the result is
  \<open>round53 size / 2^20\<close>, where \<open>round53\<close> rounds to 53 significant bits, ties to even.
  Comparing a double with an integer is exact in Python, and \<open>.1f\<close> prints the nearest
  decimal with one fractional digit, ties to even.
\<close>

function bit_length :: "nat \<Rightarrow> nat" where
  "bit_length n = (if n = 0 then 0 else Suc (bit_length (n div 2)))"
  by pat_completeness auto
termination
  by (relation "measure id") auto

declare bit_length.simps [simp del]

definition round_half_even :: "nat \<Rightarrow> nat \<Rightarrow> nat" where
  "round_half_even n d =
     (let q = n div d; r = n mod d
      in if d < 2 * r \<or> (2 * r = d \<and> odd q) then q + 1 else q)"

definition round53 :: "nat \<Rightarrow> nat" where
  "round53 n =
     (if bit_length n \<le> 53 then n
      else round_half_even n (2 ^ (bit_length n - 53)) * 2 ^ (bit_length n - 53))"

definition mib :: nat where
  "mib = 1024 * 1024"

definition size_mb_gt :: "nat \<Rightarrow> nat \<Rightarrow> bool" where
  "size_mb_gt file_size limit = (limit * mib < round53 file_size)"

definition size_mb_lt :: "nat \<Rightarrow> nat \<Rightarrow> bool" where
  "size_mb_lt file_size limit = (round53 file_size < limit * mib)"

definition format_size_mb :: "nat \<Rightarrow> string" where
  "format_size_mb file_size =
     (let tenths = round_half_even (round53 file_size * 10) mib
      in str_nat (tenths div 10) @ ''.'' @ str_nat (tenths mod 10))"

section \<open>The rules engine (rules_engine.py)\<close>

record conditions =
  min_size_mb :: "nat option"
  max_size_mb :: "nat option"
  older_than_days :: "int option"
  newer_than_days :: "int option"
  extensions :: "string list option"
  contains_text :: "string option"
  has_gps :: "bool option"

record rule =
  rule_id :: int
  rule_name :: string
  pattern :: string
  target_folder :: string
  rule_conditions :: conditions
  priority :: int
  enabled :: bool

definition no_conditions :: conditions where
  "no_conditions = \<lparr>min_size_mb = None, max_size_mb = None, older_than_days = None,
                     newer_than_days = None, extensions = None, contains_text = None,
                     has_gps = None\<rparr>"

definition is_regex_pattern :: "string \<Rightarrow> bool" where
  "is_regex_pattern pat = list_ex (\<lambda>c. c \<in> set pat) ''[]()^$+''"

definition match_pattern :: "rule \<Rightarrow> path \<Rightarrow> exn + bool" where
  "match_pattern r file_path =
     (if is_regex_pattern (pattern r) then re_match_ignorecase (pattern r) (path_name file_path)
      else purepath_match file_path (pattern r))"

definition stat :: "filesystem \<Rightarrow> path \<Rightarrow> exn + file_info" where
  "stat fs p =
     (if p = [] then Inr (new_dir 0)
      else (case map_of fs p of
              None \<Rightarrow> Inl (OSError 2 ''No such file or directory'' (str_path p))
            | Some f \<Rightarrow> Inr f))"

definition day_us :: int where
  "day_us = 86400000000"

definition age_days :: "int \<Rightarrow> file_info \<Rightarrow> int" where
  "age_days now f = (now - st_mtime f) div day_us"

text \<open>One condition after the other: the first that fails returns \<open>False\<close>, a raise ends the check.\<close>

definition and_then :: "exn + bool \<Rightarrow> exn + bool \<Rightarrow> exn + bool" where
  "and_then a b = (case a of Inl e \<Rightarrow> Inl e | Inr ok \<Rightarrow> if ok then b else Inr False)"

definition with_stat :: "filesystem \<Rightarrow> path \<Rightarrow> 'a option \<Rightarrow> ('a \<Rightarrow> file_info \<Rightarrow> bool) \<Rightarrow> exn + bool" where
  "with_stat fs p c ok =
     (case c of
        None \<Rightarrow> Inr True
      | Some v \<Rightarrow> (case stat fs p of Inl e \<Rightarrow> Inl e | Inr f \<Rightarrow> Inr (ok v f)))"

definition text_condition :: "conditions \<Rightarrow> analysis option \<Rightarrow> bool" where
  "text_condition c metadata =
     (case contains_text c of
        None \<Rightarrow> True
      | Some t \<Rightarrow>
          py_in (lower t) (lower (case metadata of None \<Rightarrow> [] | Some an \<Rightarrow> content_text an)))"

definition gps_condition :: "conditions \<Rightarrow> analysis option \<Rightarrow> bool" where
  "gps_condition c metadata =
     (case has_gps c of
        None \<Rightarrow> True
      | Some v \<Rightarrow>
          \<not> (dict_get (case metadata of None \<Rightarrow> [] | Some an \<Rightarrow> an_metadata an) ''has_gps''
               \<noteq> PyBool v))"

definition check_conditions ::
  "filesystem \<Rightarrow> int \<Rightarrow> rule \<Rightarrow> path \<Rightarrow> analysis option \<Rightarrow> exn + bool" where
  "check_conditions fs now r file_path metadata =
     (let c = rule_conditions r
      in if c = no_conditions then Inr True
         else
           and_then (with_stat fs file_path (min_size_mb c) (\<lambda>m f. \<not> size_mb_lt (st_size f) m))
          (and_then (with_stat fs file_path (max_size_mb c) (\<lambda>m f. \<not> size_mb_gt (st_size f) m))
          (and_then (with_stat fs file_path (older_than_days c) (\<lambda>d f. \<not> age_days now f < d))
          (and_then (with_stat fs file_path (newer_than_days c) (\<lambda>d f. \<not> d < age_days now f))
          (and_then (Inr (case extensions c of
                            None \<Rightarrow> True
                          | Some exts \<Rightarrow> lower (path_suffix file_path) \<in> set exts))
          (and_then (Inr (text_condition c metadata))
                    (Inr (gps_condition c metadata))))))))"

definition matches :: "filesystem \<Rightarrow> int \<Rightarrow> rule \<Rightarrow> path \<Rightarrow> analysis option \<Rightarrow> bool" where
  "matches fs now r file_path metadata =
     (if \<not> enabled r then False
      else (case match_pattern r file_path of
              Inl e \<Rightarrow> False
            | Inr hit \<Rightarrow>
                if \<not> hit then False
                else (case check_conditions fs now r file_path metadata of
                        Inl e \<Rightarrow> False
                      | Inr ok \<Rightarrow> ok)))"

fun apply_rules :: "rule list \<Rightarrow> filesystem \<Rightarrow> int \<Rightarrow> path \<Rightarrow> analysis option \<Rightarrow> string option" where
  "apply_rules [] fs now file_path metadata = None"
| "apply_rules (r # rs) fs now file_path metadata =
     (if matches fs now r file_path metadata then Some (target_folder r)
      else apply_rules rs fs now file_path metadata)"

section \<open>Duplicate index, statistics and undo bookkeeping (database.py)\<close>

definition record_sighting :: "int \<Rightarrow> string \<Rightarrow> string \<Rightarrow> nat \<Rightarrow> database \<Rightarrow> bool \<times> database" where
  "record_sighting now h file_path sz d =
     (if list_ex (\<lambda>e. dh_file_hash e = h) (duplicate_hashes d) then
        (True, d\<lparr>duplicate_hashes :=
                  map (\<lambda>e. if dh_file_hash e = h
                            then e\<lparr>last_seen := now, duplicate_count := Suc (duplicate_count e)\<rparr>
                            else e) (duplicate_hashes d)\<rparr>)
      else
        (False, d\<lparr>duplicate_hashes := duplicate_hashes d @
                  [\<lparr>dh_file_hash = h, dh_original_path = file_path, dh_file_size = sz,
                    first_seen = now, last_seen = now, duplicate_count = 0\<rparr>]\<rparr>))"

definition add_duplicate_hash :: "int \<Rightarrow> database \<Rightarrow> string \<Rightarrow> string \<Rightarrow> nat \<Rightarrow> bool \<times> database" where
  "add_duplicate_hash now d h file_path sz =
     (case get_connection d (record_sighting now h file_path sz) of
        (Inr is_dup, d') \<Rightarrow> (is_dup, d')
      | (Inl e, d') \<Rightarrow> (False, d'))"

definition upsert_statistic ::
  "int \<Rightarrow> string \<Rightarrow> nat \<Rightarrow> nat \<Rightarrow> nat \<Rightarrow> nat \<Rightarrow> database \<Rightarrow> unit \<times> database" where
  "upsert_statistic now cat n sz dups errs d =
     (let day = now div day_us
      in if list_ex (\<lambda>s. st_date s = day \<and> st_category s = cat) (statistics d) then
           ((), d\<lparr>statistics :=
                   map (\<lambda>s. if st_date s = day \<and> st_category s = cat
                             then s\<lparr>files_processed := files_processed s + n,
                                    total_size := total_size s + sz,
                                    duplicates_found := duplicates_found s + dups,
                                    errors_count := errors_count s + errs\<rparr>
                             else s) (statistics d)\<rparr>)
         else
           ((), d\<lparr>statistics := statistics d @
                   [\<lparr>st_date = day, st_category = cat, files_processed = n, total_size = sz,
                     duplicates_found = dups, errors_count = errs\<rparr>]\<rparr>))"

definition update_statistics :: "int \<Rightarrow> database \<Rightarrow> string \<Rightarrow> nat \<Rightarrow> nat \<Rightarrow> nat \<Rightarrow> nat \<Rightarrow> database" where
  "update_statistics now d cat n sz dups errs =
     snd (get_connection d (upsert_statistic now cat n sz dups errs))"

text \<open>
  Entries are kept in insertion order and their timestamps grow with it, so
  \<open>ORDER BY timestamp DESC LIMIT n\<close> is the first \<open>n\<close> entries of the reversed table.
\<close>

definition get_operation_history :: "database \<Rightarrow> nat \<Rightarrow> operation list \<times> database" where
  "get_operation_history d limit =
     (case get_connection d (\<lambda>d'. (take limit (rev (file_operations d')), d')) of
        (Inr rows, d') \<Rightarrow> (rows, d')
      | (Inl e, d') \<Rightarrow> ([], d'))"

definition set_undone :: "int \<Rightarrow> database \<Rightarrow> unit \<times> database" where
  "set_undone operation_id d =
     ((), d\<lparr>file_operations :=
             map (\<lambda>e. if op_id e = operation_id then e\<lparr>can_undo := False\<rparr> else e)
               (file_operations d)\<rparr>)"

definition mark_operation_undone :: "database \<Rightarrow> int \<Rightarrow> database" where
  "mark_operation_undone d operation_id = snd (get_connection d (set_undone operation_id))"

section \<open>The organization pipeline (organizer.py)\<close>

record config =
  watch_folder :: path
  organized_folder :: path
  duplicate_folder :: path
  auto_rename :: bool
  enable_duplicates :: bool
  cloud_backup :: bool
  ai_classification :: bool
  max_file_size_mb :: nat
  scan_interval_sec :: nat

record organizer =
  org_config :: config
  content_analyzer :: "analyzer option"
  rules_engine :: "rule list option"

text \<open>
  Everything the pipeline reads and changes: the directory tree, the directories that
  refuse new entries, the clock (microseconds), the working directory, the store and
  the organizer's in-memory counters.
\<close>

record world =
  files :: filesystem
  readonly_dirs :: "path list"
  clock :: int
  cwd :: path
  db :: database
  stats_processed :: nat
  stats_duplicates :: nat
  stats_errors :: nat

type_synonym result = "bool \<times> string \<times> string \<times> nat"

definition compute_hash :: "filesystem \<Rightarrow> path \<Rightarrow> exn + string" where
  "compute_hash fs p =
     (case map_of fs p of
        None \<Rightarrow> Inl (OSError 2 ''No such file or directory'' (str_path p))
      | Some f \<Rightarrow>
          if is_dir f then Inl (OSError 21 ''Is a directory'' (str_path p))
          else if \<not> readable f then Inl (OSError 13 ''Permission denied'' (str_path p))
          else Inr (sha256 f))"

text \<open>The three tiers of the classification cascade (lines 118 to 159).\<close>

definition rule_metadata :: "organizer \<Rightarrow> world \<Rightarrow> path \<Rightarrow> analysis option" where
  "rule_metadata org w file_path =
     (case content_analyzer org of
        None \<Rightarrow> None
      | Some a \<Rightarrow> Some (analyze_file a (files w) file_path))"

definition tier1 :: "organizer \<Rightarrow> world \<Rightarrow> path \<Rightarrow> analysis option \<times> string option" where
  "tier1 org w file_path =
     (case rules_engine org of
        None \<Rightarrow> (None, None)
      | Some rules \<Rightarrow>
          (let metadata = rule_metadata org w file_path
           in (case apply_rules rules (files w) (clock w) file_path metadata of
                 None \<Rightarrow> (metadata, None)
               | Some custom_target \<Rightarrow>
                   if custom_target \<noteq> [] then (metadata, Some custom_target)
                   else (metadata, None))))"

definition tier2 :: "analyzer \<Rightarrow> world \<Rightarrow> path \<Rightarrow> analysis option \<Rightarrow> string" where
  "tier2 a w file_path metadata =
     (let md = (case metadata of None \<Rightarrow> analyze_file a (files w) file_path | Some m \<Rightarrow> m)
      in (case suggested_category md of
            None \<Rightarrow> classify file_path True
          | Some s \<Rightarrow> if s \<noteq> [] then s else classify file_path True))"

definition tier3 :: "organizer \<Rightarrow> path \<Rightarrow> string" where
  "tier3 org file_path = classify file_path (ai_classification (org_config org))"

definition classify_stage :: "organizer \<Rightarrow> world \<Rightarrow> path \<Rightarrow> string" where
  "classify_stage org w file_path =
     (let (metadata, category1) = tier1 org w file_path;
          category2 =
            (case category1 of
               Some c \<Rightarrow> c
             | None \<Rightarrow>
                 (case content_analyzer org of
                    None \<Rightarrow> []
                  | Some a \<Rightarrow>
                      if ai_classification (org_config org) then tier2 a w file_path metadata
                      else []))
      in if category2 = [] then tier3 org file_path else category2)"

definition organize_duplicate ::
  "organizer \<Rightarrow> world \<Rightarrow> path \<Rightarrow> nat \<Rightarrow> string \<Rightarrow> (exn \<times> world) + (result \<times> world)" where
  "organize_duplicate org w file_path file_size file_hash =
     (let dest_folder = duplicate_folder (org_config org)
      in (case mkdir_parents (files w) (readonly_dirs w) (clock w) dest_folder of
            Inl e \<Rightarrow> Inl (e, w)
          | Inr fs1 \<Rightarrow>
              (let dest_path = get_unique_path fs1 (dest_folder @ [path_name file_path])
               in (case shutil_move fs1 (readonly_dirs w) file_path dest_path of
                     Inl (e, fs') \<Rightarrow> Inl (e, w\<lparr>files := fs'\<rparr>)
                   | Inr fs2 \<Rightarrow>
                       (let d1 = snd (log_operation (clock w) (db w) (path_name file_path)
                                        (str_path file_path) (str_path dest_path) ''Duplicates''
                                        ''duplicate'' file_size (Some file_hash) True None);
                            d2 = update_statistics (clock w) d1 ''Duplicates'' 1 file_size 1 0
                        in Inr ((True, ''Duplicate detected'', ''Duplicates'', file_size),
                                w\<lparr>files := fs2, db := d2,
                                  stats_duplicates := Suc (stats_duplicates w),
                                  stats_processed := Suc (stats_processed w)\<rparr>))))))"

definition organize_move ::
  "organizer \<Rightarrow> world \<Rightarrow> path \<Rightarrow> nat \<Rightarrow> string option \<Rightarrow> string \<Rightarrow>
   (exn \<times> world) + (result \<times> world)" where
  "organize_move org w file_path file_size file_hash category =
     (let dest_folder = joinpath (organized_folder (org_config org)) category
      in (case mkdir_parents (files w) (readonly_dirs w) (clock w) dest_folder of
            Inl e \<Rightarrow> Inl (e, w)
          | Inr fs1 \<Rightarrow>
              (let dest_path = get_unique_path fs1 (dest_folder @ [path_name file_path])
               in (case shutil_move fs1 (readonly_dirs w) file_path dest_path of
                     Inl (e, fs') \<Rightarrow> Inl (e, w\<lparr>files := fs'\<rparr>)
                   | Inr fs2 \<Rightarrow>
                       (let d1 = snd (log_operation (clock w) (db w) (path_name file_path)
                                        (str_path file_path) (str_path dest_path) category
                                        ''organize'' file_size file_hash True None);
                            d2 = update_statistics (clock w) d1 category 1 file_size 0 0
                        in Inr ((True, ''Moved to '' @ category, category, file_size),
                                w\<lparr>files := fs2, db := d2,
                                  stats_processed := Suc (stats_processed w)\<rparr>))))))"

text \<open>
  The body of the \<open>try\<close> from the duplicate check on (lines 82 to 190). A raise carries
  the world as it was left and the digest, if it had been computed.
\<close>

definition organize_try ::
  "organizer \<Rightarrow> world \<Rightarrow> path \<Rightarrow> nat \<Rightarrow> (exn \<times> string option \<times> world) + (result \<times> world)" where
  "organize_try org w file_path file_size =
     (if enable_duplicates (org_config org) then
        (case compute_hash (files w) file_path of
           Inl e \<Rightarrow> Inl (e, None, w)
         | Inr file_hash \<Rightarrow>
             (let (is_dup, d1) = add_duplicate_hash (clock w) (db w) file_hash (str_path file_path)
                                   file_size;
                  w1 = w\<lparr>db := d1\<rparr>
              in if is_dup then
                   (case organize_duplicate org w1 file_path file_size file_hash of
                      Inl (e, w') \<Rightarrow> Inl (e, Some file_hash, w')
                    | Inr r \<Rightarrow> Inr r)
                 else
                   (case organize_move org w1 file_path file_size (Some file_hash)
                           (classify_stage org w1 file_path) of
                      Inl (e, w') \<Rightarrow> Inl (e, Some file_hash, w')
                    | Inr r \<Rightarrow> Inr r)))
      else
        (case organize_move org w file_path file_size None (classify_stage org w file_path) of
           Inl (e, w') \<Rightarrow> Inl (e, None, w')
         | Inr r \<Rightarrow> Inr r))"

definition organize_except ::
  "world \<Rightarrow> path \<Rightarrow> nat \<Rightarrow> string option \<Rightarrow> exn \<Rightarrow> result \<times> world" where
  "organize_except w file_path file_size file_hash e =
     (let d1 = snd (log_operation (clock w) (db w) (path_name file_path) (str_path file_path) [] []
                      ''organize'' file_size file_hash False (Some (str_exn e)));
          d2 = update_statistics (clock w) d1 ''Errors'' 0 0 0 1
      in ((False, ''Error: '' @ str_exn e, [], file_size),
          w\<lparr>db := d2, stats_errors := Suc (stats_errors w)\<rparr>))"

definition too_large_message :: "nat \<Rightarrow> string" where
  "too_large_message file_size = ''File too large ('' @ format_size_mb file_size @ ''MB)''"

definition organize_file :: "organizer \<Rightarrow> world \<Rightarrow> path \<Rightarrow> result \<times> world" where
  "organize_file org w file_path =
     (if \<not> path_exists (files w) file_path \<or> \<not> path_is_file (files w) file_path then
        ((False, ''File not found'', [], 0),
         w\<lparr>db := snd (log_operation (clock w) (db w) (path_name file_path) (str_path file_path) [] []
                        ''organize'' 0 None False (Some ''File not found''))\<rparr>)
      else
        (case stat (files w) file_path of
           Inl e \<Rightarrow> organize_except w file_path 0 None e
         | Inr f \<Rightarrow>
             (let file_size = st_size f
              in if size_mb_gt file_size (max_file_size_mb (org_config org)) then
                   ((False, too_large_message file_size, [], file_size),
                    w\<lparr>db := snd (log_operation (clock w) (db w) (path_name file_path)
                                   (str_path file_path) [] [] ''organize'' file_size None False
                                   (Some (too_large_message file_size)))\<rparr>)
                 else
                   (case organize_try org w file_path file_size of
                      Inl (e, file_hash, w') \<Rightarrow> organize_except w' file_path file_size file_hash e
                    | Inr r \<Rightarrow> r))))"

section \<open>Undo (history_viewer.py)\<close>

datatype undo_outcome = OperationNotFound | Declined | FileNotFound | Restored | UndoFailed exn

text \<open>
  \<open>undo_operation\<close>, with the answer to the confirmation dialog as an argument. The
  recorded strings are turned back into paths, relative ones against the working
  directory.
\<close>

definition undo_operation :: "world \<Rightarrow> int \<Rightarrow> bool \<Rightarrow> undo_outcome \<times> world" where
  "undo_operation w operation_id confirmed =
     (let (operations, d0) = get_operation_history (db w) 1000;
          w0 = w\<lparr>db := d0\<rparr>
      in (case find (\<lambda>e. op_id e = operation_id) operations of
            None \<Rightarrow> (OperationNotFound, w0)
          | Some operation \<Rightarrow>
              if \<not> confirmed then (Declined, w0)
              else
                (let source = joinpath (cwd w) (destination_path operation);
                     dest = joinpath (cwd w) (original_path operation)
                 in if \<not> path_exists (files w) source then (FileNotFound, w0)
                    else
                      (case mkdir_parents (files w) (readonly_dirs w) (clock w) (path_parent dest) of
                         Inl e \<Rightarrow> (UndoFailed e, w0)
                       | Inr fs1 \<Rightarrow>
                           (case shutil_move fs1 (readonly_dirs w) source dest of
                              Inl (e, fs') \<Rightarrow> (UndoFailed e, w0\<lparr>files := fs'\<rparr>)
                            | Inr fs2 \<Rightarrow>
                                (let d1 = mark_operation_undone d0 operation_id;
                                     d2 = snd (log_operation (clock w) d1 (op_filename operation)
                                                 (str_path source) (str_path dest) ''Undo'' ''undo''
                                                 (op_file_size operation) None True None)
                                 in (Restored, w0\<lparr>files := fs2, db := d2\<rparr>)))))))"



section \<open>A small installation, for concrete runs\<close>

definition ex_file :: file_info where
  "ex_file = \<lparr>is_dir = False, st_size = 2048, st_mtime = 0, sha256 = ''abc123'', readable = True,
              image = None, ocr_text = [], doc_text = [], doc_metadata = []\<rparr>"

definition ex_db :: database where
  "ex_db = \<lparr>file_operations = [], op_seq = 0, duplicate_hashes = [], statistics = [], faults = []\<rparr>"

definition ex_config :: config where
  "ex_config = \<lparr>watch_folder = [''watch''], organized_folder = [''organized''],
                 duplicate_folder = [''dups''], auto_rename = True, enable_duplicates = True,
                 cloud_backup = False, ai_classification = False, max_file_size_mb = 1000,
                 scan_interval_sec = 5\<rparr>"

definition ex_org :: organizer where
  "ex_org = \<lparr>org_config = ex_config, content_analyzer = None, rules_engine = None\<rparr>"

definition ex_world :: world where
  "ex_world = \<lparr>files = [([''watch''], new_dir 0), ([''watch'', ''a.txt''], ex_file)],
                readonly_dirs = [], clock = 1000, cwd = [], db = ex_db,
                stats_processed = 0, stats_duplicates = 0, stats_errors = 0\<rparr>"

definition ex_sighting :: duplicate_hash where
  "ex_sighting = \<lparr>dh_file_hash = ''abc123'', dh_original_path = ''/watch/a.txt'', dh_file_size = 2048,
                   first_seen = 10, last_seen = 10, duplicate_count = 0\<rparr>"

definition ex_world_seen :: "bool list \<Rightarrow> world" where
  "ex_world_seen fl = ex_world\<lparr>db := ex_db\<lparr>duplicate_hashes := [ex_sighting], faults := fl\<rparr>\<rparr>"

text \<open>A ledger entry of a failed attempt as the data model wants it.\<close>

definition failure_wellformed :: "operation \<Rightarrow> bool" where
  "failure_wellformed e =
     ((case error_message e of None \<Rightarrow> False | Some m \<Rightarrow> m \<noteq> []) \<and> destination_path e = [])"


text \<open>A sparse file of \<open>2^53 + 1\<close> bytes under a limit of \<open>2^33\<close> megabytes.\<close>

definition cx_big_file :: file_info where
  "cx_big_file = ex_file\<lparr>st_size := 2 ^ 53 + 1\<rparr>"

definition cx_big_org :: organizer where
  "cx_big_org = \<lparr>org_config = ex_config\<lparr>max_file_size_mb := 2 ^ 33, enable_duplicates := False\<rparr>,
                  content_analyzer = None, rules_engine = None\<rparr>"

definition cx_big_world :: world where
  "cx_big_world = ex_world\<lparr>files := [([''watch''], new_dir 0), ([''watch'', ''a.txt''], cx_big_file)]\<rparr>"


text \<open>Rules for concrete runs.\<close>

definition cx_empty_target_rule :: rule where
  "cx_empty_target_rule =
     \<lparr>rule_id = 1, rule_name = ''Text files'', pattern = ''*.txt'', target_folder = [],
      rule_conditions = no_conditions, priority = 0, enabled = True\<rparr>"

definition ex_text_rule :: rule where
  "ex_text_rule = cx_empty_target_rule\<lparr>target_folder := ''Notes/Text''\<rparr>"

definition cx_empty_text_rule :: rule where
  "cx_empty_text_rule =
     ex_text_rule\<lparr>rule_conditions := no_conditions\<lparr>contains_text := Some []\<rparr>\<rparr>"

definition ex_invoice_text_rule :: rule where
  "ex_invoice_text_rule =
     ex_text_rule\<lparr>rule_conditions := no_conditions\<lparr>contains_text := Some ''invoice''\<rparr>\<rparr>"

definition with_rules :: "rule list \<Rightarrow> organizer" where
  "with_rules rules = ex_org\<lparr>rules_engine := Some rules\<rparr>"

definition ex_photo :: "(string \<times> pyval) list \<Rightarrow> file_info" where
  "ex_photo exif =
     ex_file\<lparr>image := Some \<lparr>img_basic = [(''width'', PyInt 640), (''height'', PyInt 480),
                                         (''format'', PyStr ''JPEG''), (''mode'', PyStr ''RGB'')],
                            img_exif = exif\<rparr>\<rparr>"

definition ex_gps_rule :: "bool \<Rightarrow> rule" where
  "ex_gps_rule v =
     \<lparr>rule_id = 6, rule_name = ''Photos with GPS'', pattern = ''*.jpg'',
      target_folder = ''Photos/Locations'', rule_conditions = no_conditions\<lparr>has_gps := Some v\<rparr>,
      priority = 5, enabled = True\<rparr>"

definition ex_analyzer :: analyzer where
  "ex_analyzer = \<lparr>ocr_enabled = False, metadata_enabled = True\<rparr>"

definition ex_pattern_rule :: "string \<Rightarrow> rule" where
  "ex_pattern_rule pat = ex_text_rule\<lparr>pattern := pat\<rparr>"

text \<open>A repeat sighting, as \<open>add_duplicate_hash\<close> records it in one index entry.\<close>

definition bump :: "string \<Rightarrow> int \<Rightarrow> duplicate_hash \<Rightarrow> duplicate_hash" where
  "bump h now e =
     (if dh_file_hash e = h then e\<lparr>last_seen := now, duplicate_count := Suc (duplicate_count e)\<rparr>
      else e)"


text \<open>Organizing a file, undoing it, organizing it again.\<close>

definition cx_after_first :: world where
  "cx_after_first = snd (organize_file ex_org ex_world [''watch'', ''a.txt''])"

definition cx_after_undo :: world where
  "cx_after_undo = snd (undo_operation cx_after_first 1 True)"


definition cx_fault_world :: "bool list \<Rightarrow> world" where
  "cx_fault_world fl = cx_after_first\<lparr>db := (db cx_after_first)\<lparr>faults := fl\<rparr>\<rparr>"

definition cx_readonly_world :: world where
  "cx_readonly_world = cx_after_first\<lparr>readonly_dirs := [[''organized'', ''Documents'']]\<rparr>"

text \<open>
  Path components as the operating system has them: not empty, not \<open>.\<close>, without a
  slash. The string of such a path parses back to the path.
\<close>

definition wf_component :: "string \<Rightarrow> bool" where
  "wf_component c = (c \<noteq> [] \<and> c \<noteq> ''.'' \<and> CHR ''/'' \<notin> set c)"

definition wf_path :: "path \<Rightarrow> bool" where
  "wf_path p = list_all wf_component p"

text \<open>What a successful \<open>organize_file\<close> leaves behind, for either kind of move.\<close>

definition moved_to ::
  "organizer \<Rightarrow> world \<Rightarrow> path \<Rightarrow> file_info \<Rightarrow> world \<Rightarrow> path \<Rightarrow> filesystem \<Rightarrow> path \<Rightarrow> bool" where
  "moved_to org w p f w' folder fs1 dest \<longleftrightarrow>
     mkdir_parents (files w) (readonly_dirs w) (clock w) folder = Inr fs1 \<and>
     dest = get_unique_path fs1 (folder @ [path_name p]) \<and>
     path_parent p \<notin> set (readonly_dirs w) \<and> folder \<notin> set (readonly_dirs w) \<and>
     files w' = fs_update dest f (fs_delete p fs1) \<and>
     readonly_dirs w' = readonly_dirs w \<and> clock w' = clock w \<and> cwd w' = cwd w \<and>
     faults (db w') = [] \<and>
     (\<exists>row. file_operations (db w') = file_operations (db w) @ [row] \<and>
            original_path row = str_path p \<and> destination_path row = str_path dest \<and>
            success row \<and> can_undo row \<and> op_filename row = path_name p)"


section \<open>Properties\<close>

lemma get_connection_fails:
  "connection_fails d \<Longrightarrow>
   get_connection d body = (Inl (SqliteError ''database error''), d\<lparr>faults := tl (faults d)\<rparr>)"
  by (simp add: get_connection_def)

lemma get_connection_ok:
  "\<not> connection_fails d \<Longrightarrow>
   get_connection d body =
     (Inr (fst (body (d\<lparr>faults := tl (faults d)\<rparr>))), snd (body (d\<lparr>faults := tl (faults d)\<rparr>)))"
  by (simp add: get_connection_def split: prod.splits)

subsection \<open>The ledger boundary\<close>

text \<open>
  C8. \<open>log_operation\<close> always returns an id to its caller: when the connection's
  transaction raises, the exception is caught, the sentinel \<open>-1\<close> is returned and no
  entry is stored; otherwise the entry is appended and its fresh, positive id is
  returned.
\<close>

theorem log_operation_returns_id_or_sentinel:
  "(connection_fails d \<longrightarrow>
      fst (log_operation now d fn orig dest cat ty sz h ok err) = - 1 \<and>
      file_operations (snd (log_operation now d fn orig dest cat ty sz h ok err)) = file_operations d) \<and>
   (\<not> connection_fails d \<longrightarrow>
      fst (log_operation now d fn orig dest cat ty sz h ok err) = int (op_seq d) + 1 \<and>
      0 < fst (log_operation now d fn orig dest cat ty sz h ok err) \<and>
      file_operations (snd (log_operation now d fn orig dest cat ty sz h ok err)) =
        file_operations d @
          [\<lparr>op_id = int (op_seq d) + 1, op_timestamp = now, op_filename = fn, original_path = orig,
            destination_path = dest, op_category = cat, operation_type = ty, op_file_size = sz,
            op_file_hash = h, success = ok, error_message = err, can_undo = True\<rparr>])"
proof (cases "connection_fails d")
  case True
  then show ?thesis
    by (simp add: log_operation_def get_connection_fails)
next
  case False
  then show ?thesis
    by (simp add: log_operation_def get_connection_ok insert_operation_def Let_def)
qed

theorem log_operation_returns_id_or_sentinel_witness:
  "fst (log_operation 7 \<lparr>file_operations = [], op_seq = 4, duplicate_hashes = [], statistics = [],
          faults = [True]\<rparr> ''a.txt'' ''/w/a.txt'' [] [] ''organize'' 0 None False (Some ''File not found''))
     = - 1 \<and>
   fst (log_operation 7 \<lparr>file_operations = [], op_seq = 4, duplicate_hashes = [], statistics = [],
          faults = []\<rparr> ''a.txt'' ''/w/a.txt'' [] [] ''organize'' 0 None False (Some ''File not found''))
     = 5"
  using
    log_operation_returns_id_or_sentinel [of
      "\<lparr>file_operations = [], op_seq = 4, duplicate_hashes = [], statistics = [], faults = [True]\<rparr>"
      7 "''a.txt''" "''/w/a.txt''" "[]" "[]" "''organize''" 0 None False "Some ''File not found''"]
    log_operation_returns_id_or_sentinel [of
      "\<lparr>file_operations = [], op_seq = 4, duplicate_hashes = [], statistics = [], faults = []\<rparr>"
      7 "''a.txt''" "''/w/a.txt''" "[]" "[]" "''organize''" 0 None False "Some ''File not found''"]
  by (simp add: connection_fails_def)

subsection \<open>What each store call changes\<close>

lemma log_operation_file_operations:
  "file_operations (snd (log_operation now d fn orig dest cat ty sz h ok err)) =
     file_operations d @
       (if connection_fails d then []
        else [\<lparr>op_id = int (op_seq d) + 1, op_timestamp = now, op_filename = fn, original_path = orig,
               destination_path = dest, op_category = cat, operation_type = ty, op_file_size = sz,
               op_file_hash = h, success = ok, error_message = err, can_undo = True\<rparr>])"
  by (cases "connection_fails d")
    (simp_all add: log_operation_def get_connection_fails get_connection_ok insert_operation_def Let_def)

lemma log_operation_other_tables:
  "duplicate_hashes (snd (log_operation now d fn orig dest cat ty sz h ok err)) = duplicate_hashes d"
  "statistics (snd (log_operation now d fn orig dest cat ty sz h ok err)) = statistics d"
  "faults (snd (log_operation now d fn orig dest cat ty sz h ok err)) = tl (faults d)"
  by (cases "connection_fails d";
      simp add: log_operation_def get_connection_fails get_connection_ok insert_operation_def Let_def)+

lemma update_statistics_other_tables:
  "file_operations (update_statistics now d cat n sz dups errs) = file_operations d"
  "op_seq (update_statistics now d cat n sz dups errs) = op_seq d"
  "duplicate_hashes (update_statistics now d cat n sz dups errs) = duplicate_hashes d"
  "faults (update_statistics now d cat n sz dups errs) = tl (faults d)"
  by (cases "connection_fails d";
      simp add: update_statistics_def get_connection_fails get_connection_ok upsert_statistic_def Let_def)+

lemma add_duplicate_hash_other_tables:
  "file_operations (snd (add_duplicate_hash now d h fp sz)) = file_operations d"
  "op_seq (snd (add_duplicate_hash now d h fp sz)) = op_seq d"
  "faults (snd (add_duplicate_hash now d h fp sz)) = tl (faults d)"
  by (cases "connection_fails d";
      simp add: add_duplicate_hash_def get_connection_fails get_connection_ok record_sighting_def)+


lemma add_duplicate_hash_ok:
  "\<not> connection_fails d \<Longrightarrow>
   add_duplicate_hash now d h fp sz = record_sighting now h fp sz (d\<lparr>faults := tl (faults d)\<rparr>)"
  by (simp add: add_duplicate_hash_def get_connection_ok split: prod.splits)


subsection \<open>Megabytes below \<open>2^53\<close> bytes are exact\<close>

lemma bit_length_le: "n < 2 ^ k \<Longrightarrow> bit_length n \<le> k"
proof (induction n arbitrary: k rule: bit_length.induct)
  case (1 n)
  show ?case
  proof (cases "n = 0")
    case True
    then show ?thesis by (simp add: bit_length.simps [of 0])
  next
    case False
    with "1.prems" obtain j where k: "k = Suc j"
      by (cases k) auto
    with "1.prems" have "n div 2 < 2 ^ j" by auto
    with False have "bit_length (n div 2) \<le> j" by (rule "1.IH")
    with False k show ?thesis by (simp add: bit_length.simps [of n])
  qed
qed

lemma round53_exact: "n < 2 ^ 53 \<Longrightarrow> round53 n = n"
  using bit_length_le [of n 53] by (simp add: round53_def)

lemma size_mb_gt_exact: "n < 2 ^ 53 \<Longrightarrow> size_mb_gt n limit \<longleftrightarrow> limit * mib < n"
  by (simp add: size_mb_gt_def round53_exact)

subsection \<open>The pipeline, stage by stage\<close>

lemma rule_metadata_db [simp]: "rule_metadata org (w\<lparr>db := d\<rparr>) p = rule_metadata org w p"
  by (simp add: rule_metadata_def split: option.splits)

lemma tier1_db [simp]: "tier1 org (w\<lparr>db := d\<rparr>) p = tier1 org w p"
  by (simp add: tier1_def split: option.splits)

lemma tier2_db [simp]: "tier2 a (w\<lparr>db := d\<rparr>) p md = tier2 a w p md"
  by (simp add: tier2_def split: option.splits)

lemma classify_stage_db [simp]:
  "classify_stage org (w\<lparr>db := d\<rparr>) p = classify_stage org w p"
  by (simp add: classify_stage_def split: option.splits prod.splits)

lemma organize_file_admitted:
  assumes "map_of (files w) p = Some f" and "p \<noteq> []" and "\<not> is_dir f"
    and "\<not> size_mb_gt (st_size f) (max_file_size_mb (org_config org))"
  shows "organize_file org w p =
           (case organize_try org w p (st_size f) of
              Inl (e, file_hash, w') \<Rightarrow> organize_except w' p (st_size f) file_hash e
            | Inr r \<Rightarrow> r)"
  using assms by (simp add: organize_file_def path_exists_def path_is_file_def stat_def Let_def)

lemma organize_except_tables:
  "duplicate_hashes (db (snd (organize_except w p sz h e))) = duplicate_hashes (db w)"
  "files (snd (organize_except w p sz h e)) = files w"
  "fst (organize_except w p sz h e) = (False, ''Error: '' @ str_exn e, [], sz)"
  by (simp_all add: organize_except_def Let_def update_statistics_other_tables
        log_operation_other_tables)


lemma organize_move_Inr:
  "organize_move org w p sz h c = Inr (r, w') \<Longrightarrow>
   duplicate_hashes (db w') = duplicate_hashes (db w) \<and> r = (True, ''Moved to '' @ c, c, sz)"
  by (auto simp: organize_move_def Let_def update_statistics_other_tables
        log_operation_other_tables split: sum.splits)




subsection \<open>What the operating system raises\<close>

lemma str_exn_OSError: "str_exn (OSError n s f) \<noteq> []"
  by simp

lemma compute_hash_Inl: "compute_hash fs p = Inl e \<Longrightarrow> str_exn e \<noteq> []"
  by (auto simp: compute_hash_def split: option.splits if_splits)

lemma stat_Inl: "stat fs p = Inl e \<Longrightarrow> str_exn e \<noteq> []"
  by (auto simp: stat_def split: option.splits if_splits)

lemma os_mkdir_Inl: "os_mkdir fs ro now p = Inl e \<Longrightarrow> \<exists>n s f. e = OSError n s f"
  by (auto simp: os_mkdir_def split: if_splits)

lemma mkdir_rev_Inl: "mkdir_rev fs ro now rp = Inl e \<Longrightarrow> \<exists>n s f. e = OSError n s f"
proof (induction rp arbitrary: e)
  case Nil
  then show ?case by simp
next
  case (Cons c rp)
  show ?case
  proof (cases "os_mkdir fs ro now (rev (c # rp))")
    case (Inr fs')
    with Cons.prems show ?thesis by simp
  next
    case (Inl e0)
    then obtain n s f where e0: "e0 = OSError n s f"
      by (auto dest: os_mkdir_Inl)
    show ?thesis
    proof (cases "n = 2")
      case False
      with Cons.prems Inl e0 show ?thesis
        by (auto split: if_splits)
    next
      case True
      show ?thesis
      proof (cases "mkdir_rev fs ro now rp")
        case (Inl e1)
        with Cons.prems \<open>os_mkdir fs ro now (rev (c # rp)) = Inl e0\<close> e0 True
        have "e = e1" by simp
        with Inl Cons.IH show ?thesis by blast
      next
        case (Inr fs1)
        with Cons.prems \<open>os_mkdir fs ro now (rev (c # rp)) = Inl e0\<close> e0 True
        show ?thesis
          by (auto split: sum.splits if_splits dest: os_mkdir_Inl)
      qed
    qed
  qed
qed

lemma mkdir_parents_Inl: "mkdir_parents fs ro now p = Inl e \<Longrightarrow> str_exn e \<noteq> []"
  by (auto simp: mkdir_parents_def dest: mkdir_rev_Inl)

lemma os_rename_Inl: "os_rename fs ro src dst = Inl e \<Longrightarrow> str_exn e \<noteq> []"
  by (auto simp: os_rename_def split: option.splits if_splits)

lemma copy2_Inl: "copy2 fs ro src dst = Inl e \<Longrightarrow> str_exn e \<noteq> []"
  by (auto simp: copy2_def Let_def split: option.splits if_splits)

lemma os_unlink_Inl: "os_unlink fs ro p = Inl e \<Longrightarrow> str_exn e \<noteq> []"
  by (auto simp: os_unlink_def split: option.splits if_splits)

lemma shutil_move_Inl:
  "shutil_move fs ro src dst = Inl (e, fs') \<Longrightarrow> \<not> path_is_dir fs src \<Longrightarrow> str_exn e \<noteq> []"
  by (auto simp: shutil_move_def Let_def split: if_splits sum.splits
        dest: copy2_Inl os_unlink_Inl)

subsection \<open>The file system operations\<close>

lemma map_of_fs_delete: "map_of (fs_delete p fs) q = (if q = p then None else map_of fs q)"
  by (induction fs) (auto simp: fs_delete_def)

lemma map_of_fs_update:
  "map_of (fs_update d f fs) q = (if q = d then Some f else map_of fs q)"
  by (simp add: fs_update_def map_of_fs_delete)

lemma os_mkdir_Inr:
  "os_mkdir fs ro now p = Inr fs' \<Longrightarrow> fs' = fs @ [(p, new_dir now)] \<and> map_of fs p = None \<and> p \<noteq> []"
  by (auto simp: os_mkdir_def path_exists_def split: if_splits)

lemma mkdir_rev_extends:
  "mkdir_rev fs ro now rp = Inr fs' \<Longrightarrow>
   \<exists>dirs. fs' = fs @ dirs \<and> (\<forall>x \<in> set dirs. is_dir (snd x) \<and> map_of fs (fst x) = None)"
proof (induction rp arbitrary: fs')
  case Nil
  then show ?case by simp
next
  case (Cons c rp)
  let ?p = "rev (c # rp)"
  show ?case
  proof (cases "os_mkdir fs ro now ?p")
    case (Inr fs0)
    with Cons.prems have "fs' = fs0" by simp
    with os_mkdir_Inr [OF Inr] show ?thesis
      by (auto simp: new_dir_def)
  next
    case (Inl e0)
    then obtain n s f where e0: "e0 = OSError n s f"
      by (auto dest: os_mkdir_Inl)
    show ?thesis
    proof (cases "n = 2")
      case False
      with Cons.prems Inl e0 have "fs' = fs"
        by (auto split: if_splits)
      then show ?thesis by simp
    next
      case True
      show ?thesis
      proof (cases "mkdir_rev fs ro now rp")
        case (Inl e1)
        with Cons.prems \<open>os_mkdir fs ro now ?p = Inl e0\<close> e0 True show ?thesis by simp
      next
        case (Inr fs1)
        from Cons.IH [OF Inr] obtain dirs
          where d: "fs1 = fs @ dirs" "\<forall>x \<in> set dirs. is_dir (snd x) \<and> map_of fs (fst x) = None"
          by blast
        show ?thesis
        proof (cases "os_mkdir fs1 ro now ?p")
          case inner: (Inl e2)
          with Cons.prems \<open>os_mkdir fs ro now ?p = Inl e0\<close> e0 True Inr have "fs' = fs1"
            by (auto split: if_splits)
          with d show ?thesis by blast
        next
          case inner: (Inr fs2)
          with Cons.prems \<open>os_mkdir fs ro now ?p = Inl e0\<close> e0 True Inr have "fs' = fs2"
            by simp
          moreover from os_mkdir_Inr [OF inner]
          have "fs2 = fs1 @ [(?p, new_dir now)]" "map_of fs1 ?p = None" by simp_all
          moreover from this d have "map_of fs ?p = None"
            by (simp add: map_add_def split: option.splits)
          ultimately show ?thesis
            using d by (intro exI [of _ "dirs @ [(?p, new_dir now)]"]) (auto simp: new_dir_def)
        qed
      qed
    qed
  qed
qed

lemma mkdir_rev_is_dir: "mkdir_rev fs ro now rp = Inr fs' \<Longrightarrow> path_is_dir fs' (rev rp)"
proof (cases rp)
  case Nil
  then show ?thesis by (simp add: path_is_dir_def)
next
  case (Cons c rp')
  assume r: "mkdir_rev fs ro now rp = Inr fs'"
  let ?p = "rev (c # rp')"
  show ?thesis
  proof (cases "os_mkdir fs ro now ?p")
    case (Inr fs0)
    with r Cons have "fs' = fs0" by simp
    with os_mkdir_Inr [OF Inr] Cons show ?thesis
      by (simp add: path_is_dir_def new_dir_def map_add_def)
  next
    case (Inl e0)
    then obtain n s f where e0: "e0 = OSError n s f"
      by (auto dest: os_mkdir_Inl)
    show ?thesis
    proof (cases "n = 2")
      case False
      with r Cons Inl e0 show ?thesis
        by (auto split: if_splits)
    next
      case True
      show ?thesis
      proof (cases "mkdir_rev fs ro now rp'")
        case (Inl e1)
        with r Cons \<open>os_mkdir fs ro now ?p = Inl e0\<close> e0 True show ?thesis by simp
      next
        case (Inr fs1)
        show ?thesis
        proof (cases "os_mkdir fs1 ro now ?p")
          case inner: (Inl e2)
          with r Cons \<open>os_mkdir fs ro now ?p = Inl e0\<close> e0 True Inr show ?thesis
            by (auto split: if_splits)
        next
          case inner: (Inr fs2)
          with r Cons \<open>os_mkdir fs ro now ?p = Inl e0\<close> e0 True Inr have "fs' = fs2"
            by simp
          with os_mkdir_Inr [OF inner] Cons show ?thesis
            by (simp add: path_is_dir_def new_dir_def map_add_def)
        qed
      qed
    qed
  qed
qed

lemma mkdir_parents_Inr:
  assumes "mkdir_parents fs ro now p = Inr fs'"
  shows "path_is_dir fs' p"
    and "map_of fs q = Some f \<Longrightarrow> map_of fs' q = Some f"
    and "map_of fs' q = Some f \<Longrightarrow> map_of fs q = Some f \<or> (map_of fs q = None \<and> is_dir f)"
proof -
  from assms have r: "mkdir_rev fs ro now (rev p) = Inr fs'"
    by (simp add: mkdir_parents_def)
  from mkdir_rev_is_dir [OF r] show "path_is_dir fs' p" by simp
  from mkdir_rev_extends [OF r] obtain dirs
    where d: "fs' = fs @ dirs" "\<forall>x \<in> set dirs. is_dir (snd x) \<and> map_of fs (fst x) = None"
    by blast
  show "map_of fs' q = Some f" if "map_of fs q = Some f"
    using that d by (simp add: map_add_def)
  show "map_of fs q = Some f \<or> (map_of fs q = None \<and> is_dir f)" if "map_of fs' q = Some f"
  proof (cases "map_of fs q")
    case None
    with that d have "map_of dirs q = Some f"
      by (simp add: map_add_def split: option.splits)
    then have "(q, f) \<in> set dirs" by (rule map_of_SomeD)
    with d None show ?thesis by auto
  next
    case (Some g)
    with that d show ?thesis by (simp add: map_add_def)
  qed
qed

lemma mkdir_parents_existing:
  "path_is_dir fs p \<Longrightarrow> mkdir_parents fs ro now p = Inr fs"
proof (cases "rev p")
  case Nil
  then show ?thesis by (simp add: mkdir_parents_def)
next
  case (Cons c rp)
  assume d: "path_is_dir fs p"
  from Cons have p: "rev (c # rp) = p"
    by (metis rev_rev_ident)
  with d have "p \<noteq> []" "path_exists fs p"
    by (auto simp: path_is_dir_def path_exists_def split: option.splits)
  then have "os_mkdir fs ro now p = Inl (OSError 17 ''File exists'' (str_path p))"
    by (simp add: os_mkdir_def)
  with Cons p d show ?thesis
    by (simp add: mkdir_parents_def)
qed

lemma probe_free:
  "\<not> path_exists fs (probe fs parent stm sfx k) \<and>
   (\<exists>j. probe fs parent stm sfx k = parent @ [stm @ ''_'' @ str_nat j @ sfx])"
proof (induction fs parent stm sfx k rule: probe.induct)
  case (1 fs parent stm sfx counter)
  show ?case
  proof (cases "path_exists fs (parent @ [stm @ ''_'' @ str_nat counter @ sfx])")
    case True
    with "1.IH" [OF refl] show ?thesis
      by (subst (1 2) probe.simps) (simp add: Let_def)
  next
    case False
    then show ?thesis
      by (subst (1 2) probe.simps) (auto simp: Let_def)
  qed
qed

lemma get_unique_path_free: "\<not> path_exists fs (get_unique_path fs c)"
  by (simp add: get_unique_path_def probe_free)

lemma get_unique_path_parent:
  "path_parent (get_unique_path fs (folder @ [nm])) = folder"
  using probe_free [of fs folder "name_stem nm" "name_suffix nm" 1]
  by (auto simp: get_unique_path_def path_parent_def path_stem_def path_suffix_def path_name_def)

lemma path_is_dir_exists: "path_is_dir fs p \<Longrightarrow> path_exists fs p"
  by (auto simp: path_is_dir_def path_exists_def split: option.splits)

lemma move_file_writable:
  assumes "map_of fs src = Some f" and "\<not> is_dir f" and "\<not> path_is_dir fs dst"
    and "path_is_dir fs (path_parent dst)"
    and "path_parent src \<notin> set ro" and "path_parent dst \<notin> set ro"
  shows "shutil_move fs ro src dst =
           Inr (if src = dst then fs else fs_update dst f (fs_delete src fs))"
  using assms path_is_dir_exists [OF assms(4)]
  by (simp add: shutil_move_def os_rename_def path_exists_def)

lemma move_file_to_fresh:
  assumes "map_of fs src = Some f" and "\<not> is_dir f" and "\<not> path_exists fs dst"
    and "path_is_dir fs (path_parent dst)"
    and "path_parent src \<notin> set ro" and "path_parent dst \<notin> set ro"
  shows "shutil_move fs ro src dst = Inr (fs_update dst f (fs_delete src fs))"
proof -
  from assms(3) have "\<not> path_is_dir fs dst"
    by (auto dest: path_is_dir_exists)
  moreover from assms(1,3) have "src \<noteq> dst"
    by (auto simp: path_exists_def)
  ultimately show ?thesis
    using move_file_writable [OF assms(1,2) _ assms(4,5,6)] by simp
qed



subsection \<open>Ledger writes of the pipeline stages\<close>

lemma mkdir_parents_keeps_file:
  assumes "mkdir_parents fs ro now d = Inr fs1" and "path_is_file fs p"
  shows "\<not> path_is_dir fs1 p"
proof -
  from assms(2) obtain f where "map_of fs p = Some f" "\<not> is_dir f" "p \<noteq> []"
    by (auto simp: path_is_file_def split: option.splits)
  with mkdir_parents_Inr(2) [OF assms(1), of p f] show ?thesis
    by (simp add: path_is_dir_def)
qed

lemma organize_move_raises:
  assumes "organize_move org w p sz h c = Inl (e, w')" and "path_is_file (files w) p"
  shows "str_exn e \<noteq> [] \<and> db w' = db w"
proof (cases "mkdir_parents (files w) (readonly_dirs w) (clock w)
                (joinpath (organized_folder (org_config org)) c)")
  case (Inl e0)
  with assms(1) show ?thesis
    by (auto simp: organize_move_def Let_def dest: mkdir_parents_Inl)
next
  case (Inr fs1)
  from mkdir_parents_keeps_file [OF Inr assms(2)] assms(1) Inr show ?thesis
    by (auto simp: organize_move_def Let_def split: sum.splits dest: shutil_move_Inl)
qed

lemma organize_duplicate_raises:
  assumes "organize_duplicate org w p sz h = Inl (e, w')" and "path_is_file (files w) p"
  shows "str_exn e \<noteq> [] \<and> db w' = db w"
proof (cases "mkdir_parents (files w) (readonly_dirs w) (clock w) (duplicate_folder (org_config org))")
  case (Inl e0)
  with assms(1) show ?thesis
    by (auto simp: organize_duplicate_def Let_def dest: mkdir_parents_Inl)
next
  case (Inr fs1)
  from mkdir_parents_keeps_file [OF Inr assms(2)] assms(1) Inr show ?thesis
    by (auto simp: organize_duplicate_def Let_def split: sum.splits dest: shutil_move_Inl)
qed

lemma organize_move_ledger:
  "organize_move org w p sz h c = Inr (r, w') \<Longrightarrow>
   \<exists>new. file_operations (db w') = file_operations (db w) @ new \<and> length new \<le> 1 \<and>
         list_all success new"
  by (auto simp: organize_move_def Let_def update_statistics_other_tables
        log_operation_file_operations split: sum.splits)

lemma organize_duplicate_ledger:
  "organize_duplicate org w p sz h = Inr (r, w') \<Longrightarrow>
   r = (True, ''Duplicate detected'', ''Duplicates'', sz) \<and>
   (\<exists>new. file_operations (db w') = file_operations (db w) @ new \<and> length new \<le> 1 \<and>
         list_all success new)"
  by (auto simp: organize_duplicate_def Let_def update_statistics_other_tables
        log_operation_file_operations split: sum.splits)

lemma organize_try_raises:
  assumes "organize_try org w p sz = Inl (e, h, w')" and "path_is_file (files w) p"
  shows "str_exn e \<noteq> [] \<and> file_operations (db w') = file_operations (db w)"
proof (cases "enable_duplicates (org_config org)")
  case False
  with assms show ?thesis
    by (auto simp: organize_try_def split: sum.splits dest: organize_move_raises)
next
  case True
  show ?thesis
  proof (cases "compute_hash (files w) p")
    case (Inl e0)
    with assms True show ?thesis
      by (auto simp: organize_try_def dest: compute_hash_Inl)
  next
    case (Inr fh)
    obtain is_dup d1 where a: "add_duplicate_hash (clock w) (db w) fh (str_path p) sz = (is_dup, d1)"
      by (cases "add_duplicate_hash (clock w) (db w) fh (str_path p) sz")
    then have "file_operations d1 = file_operations (db w)"
      using add_duplicate_hash_other_tables(1) [of "clock w" "db w" fh "str_path p" sz] by simp
    with assms True Inr a show ?thesis
      by (auto simp: organize_try_def Let_def split: sum.splits if_splits
            dest!: organize_move_raises organize_duplicate_raises)
  qed
qed

lemma organize_try_ledger:
  assumes "organize_try org w p sz = Inr (r, w')"
  shows "\<exists>new. file_operations (db w') = file_operations (db w) @ new \<and> length new \<le> 1 \<and>
           list_all success new"
proof (cases "enable_duplicates (org_config org)")
  case False
  with assms show ?thesis
    by (auto simp: organize_try_def split: sum.splits dest!: organize_move_ledger)
next
  case True
  show ?thesis
  proof (cases "compute_hash (files w) p")
    case (Inl e0)
    with assms True show ?thesis
      by (auto simp: organize_try_def)
  next
    case (Inr fh)
    obtain is_dup d1 where a: "add_duplicate_hash (clock w) (db w) fh (str_path p) sz = (is_dup, d1)"
      by (cases "add_duplicate_hash (clock w) (db w) fh (str_path p) sz")
    then have "file_operations d1 = file_operations (db w)"
      using add_duplicate_hash_other_tables(1) [of "clock w" "db w" fh "str_path p" sz] by simp
    with assms True Inr a show ?thesis
      by (auto simp: organize_try_def Let_def split: sum.splits if_splits
            dest!: organize_move_ledger organize_duplicate_ledger)
  qed
qed

lemma organize_except_ledger:
  "file_operations (db (snd (organize_except w p sz h e))) =
     file_operations (db w) @
       (if connection_fails (db w) then []
        else [\<lparr>op_id = int (op_seq (db w)) + 1, op_timestamp = clock w, op_filename = path_name p,
               original_path = str_path p, destination_path = [], op_category = [],
               operation_type = ''organize'', op_file_size = sz, op_file_hash = h, success = False,
               error_message = Some (str_exn e), can_undo = True\<rparr>])"
  by (simp add: organize_except_def Let_def update_statistics_other_tables
        log_operation_file_operations)

text \<open>
  C7. Whatever \<open>organize_file\<close> is given, it appends at most one entry to the ledger,
  and an appended entry with \<open>success = False\<close> (file not found, size limit, or the
  catch-all handler) has a non-empty error message and the empty destination path.
\<close>

theorem failure_entries_carry_message_and_no_destination:
  "\<exists>new. file_operations (db (snd (organize_file org w p))) = file_operations (db w) @ new \<and>
         length new \<le> 1 \<and> (\<forall>e \<in> set new. \<not> success e \<longrightarrow> failure_wellformed e)"
proof (cases "\<not> path_exists (files w) p \<or> \<not> path_is_file (files w) p")
  case True
  then show ?thesis
    by (simp add: organize_file_def log_operation_file_operations failure_wellformed_def)
next
  case False
  show ?thesis
  proof (cases "stat (files w) p")
    case (Inl e)
    with False show ?thesis
      by (simp add: organize_file_def organize_except_ledger failure_wellformed_def stat_Inl)
  next
    case (Inr f)
    show ?thesis
    proof (cases "size_mb_gt (st_size f) (max_file_size_mb (org_config org))")
      case True
      with False Inr show ?thesis
        by (simp add: organize_file_def log_operation_file_operations failure_wellformed_def
              too_large_message_def Let_def)
    next
      case small: False
      show ?thesis
      proof (cases "organize_try org w p (st_size f)")
        case (Inl ehw)
        then obtain e h w' where t: "organize_try org w p (st_size f) = Inl (e, h, w')"
          by (cases ehw) auto
        from False have "path_is_file (files w) p" by simp
        from organize_try_raises [OF t this] have "str_exn e \<noteq> []"
          and "file_operations (db w') = file_operations (db w)" by simp_all
        with False Inr small t show ?thesis
          by (simp add: organize_file_def organize_except_ledger failure_wellformed_def Let_def)
      next
        case (Inr rw)
        then obtain r w' where t: "organize_try org w p (st_size f) = Inr (r, w')"
          by (cases rw) auto
        from organize_try_ledger [OF t] obtain new
          where "file_operations (db w') = file_operations (db w) @ new" "length new \<le> 1"
            "list_all success new" by blast
        with False \<open>stat (files w) p = Inr f\<close> small t show ?thesis
          by (auto simp: organize_file_def list_all_iff Let_def)
      qed
    qed
  qed
qed

lemma bit_length_eq: "2 ^ k \<le> n \<Longrightarrow> n < 2 ^ Suc k \<Longrightarrow> bit_length n = Suc k"
proof (induction k arbitrary: n)
  case 0
  then have "n = 1" by simp
  then show ?case by (simp add: bit_length.simps [of "Suc 0"] bit_length.simps [of 0])
next
  case (Suc k)
  then have "2 ^ k \<le> n div 2" "n div 2 < 2 ^ Suc k" by auto
  then have "bit_length (n div 2) = Suc k" by (rule Suc.IH)
  moreover from Suc.prems have "n \<noteq> 0" by auto
  ultimately show ?case by (simp add: bit_length.simps [of n])
qed

lemma round53_big: "round53 (2 ^ 53 + 1) = 2 ^ 53"
proof -
  have "bit_length (2 ^ 53 + 1) = Suc 53"
    by (rule bit_length_eq) simp_all
  then show ?thesis
    by (simp add: round53_def round_half_even_def Let_def)
qed

theorem failure_entries_carry_message_and_no_destination_witness:
  "file_operations (db (snd (organize_file ex_org ex_world [''watch'', ''gone.txt'']))) \<noteq> [] \<and>
   list_all (\<lambda>e. \<not> success e \<and> failure_wellformed e)
     (file_operations (db (snd (organize_file ex_org ex_world [''watch'', ''gone.txt'']))))"
proof -
  let ?row = "\<lparr>op_id = 1, op_timestamp = 1000, op_filename = ''gone.txt'',
                original_path = ''/watch/gone.txt'', destination_path = [], op_category = [],
                operation_type = ''organize'', op_file_size = 0, op_file_hash = None, success = False,
                error_message = Some ''File not found'', can_undo = True\<rparr>"
  have ev: "file_operations (db (snd (organize_file ex_org ex_world [''watch'', ''gone.txt'']))) = [?row]"
    by (simp add: organize_file_def ex_world_def ex_db_def path_exists_def path_is_file_def
          log_operation_file_operations connection_fails_def path_name_def str_path_def)
  from failure_entries_carry_message_and_no_destination [of ex_org ex_world "[''watch'', ''gone.txt'']"]
  obtain new
    where n: "file_operations (db (snd (organize_file ex_org ex_world [''watch'', ''gone.txt'']))) =
                file_operations (db ex_world) @ new"
      and b: "\<forall>e \<in> set new. \<not> success e \<longrightarrow> failure_wellformed e"
    by blast
  have "file_operations (db ex_world) = []"
    by (simp add: ex_world_def ex_db_def)
  with n ev have "new = [?row]" by simp
  with b have "failure_wellformed ?row" by simp
  with ev show ?thesis by simp
qed

lemma organize_try_success: "organize_try org w p sz = Inr (r, w') \<Longrightarrow> fst r"
  by (auto simp: organize_try_def Let_def split: if_splits sum.splits prod.splits
        dest!: organize_move_Inr organize_duplicate_ledger)

text \<open>
  C4, for sizes below \<open>2^53\<close> bytes, where the megabyte quotient is exact. A file of at
  most the configured maximum enters the \<open>try\<close> block and its outcome is not the size
  failure. A file over the maximum, were it by one byte, gets the failure outcome whose
  message carries the formatted size; the entry is handed to the ledger (and stored
  unless the connection fails), and the files and the duplicate index stay as they were.
\<close>

theorem size_limit_boundary:
  assumes "map_of (files w) p = Some f" and "p \<noteq> []" and "\<not> is_dir f" and "st_size f < 2 ^ 53"
  shows "(st_size f \<le> max_file_size_mb (org_config org) * mib \<longrightarrow>
            organize_file org w p =
              (case organize_try org w p (st_size f) of
                 Inl (e, file_hash, w') \<Rightarrow> organize_except w' p (st_size f) file_hash e
               | Inr r \<Rightarrow> r) \<and>
            fst (organize_file org w p) \<noteq> (False, too_large_message (st_size f), [], st_size f)) \<and>
         (max_file_size_mb (org_config org) * mib < st_size f \<longrightarrow>
            fst (organize_file org w p) = (False, too_large_message (st_size f), [], st_size f) \<and>
            files (snd (organize_file org w p)) = files w \<and>
            duplicate_hashes (db (snd (organize_file org w p))) = duplicate_hashes (db w) \<and>
            file_operations (db (snd (organize_file org w p))) =
              file_operations (db w) @
                (if connection_fails (db w) then []
                 else [\<lparr>op_id = int (op_seq (db w)) + 1, op_timestamp = clock w,
                        op_filename = path_name p, original_path = str_path p,
                        destination_path = [], op_category = [], operation_type = ''organize'',
                        op_file_size = st_size f, op_file_hash = None, success = False,
                        error_message = Some (too_large_message (st_size f)), can_undo = True\<rparr>]))"
proof (cases "max_file_size_mb (org_config org) * mib < st_size f")
  case True
  with assms have "size_mb_gt (st_size f) (max_file_size_mb (org_config org))"
    by (simp add: size_mb_gt_exact)
  with assms True show ?thesis
    by (simp add: organize_file_def path_exists_def path_is_file_def stat_def Let_def
          log_operation_file_operations log_operation_other_tables)
next
  case False
  with assms have small: "\<not> size_mb_gt (st_size f) (max_file_size_mb (org_config org))"
    by (simp add: size_mb_gt_exact)
  have o: "organize_file org w p =
             (case organize_try org w p (st_size f) of
                Inl (e, file_hash, w') \<Rightarrow> organize_except w' p (st_size f) file_hash e
              | Inr r \<Rightarrow> r)"
    using assms(1-3) small by (rule organize_file_admitted)
  have "fst (organize_file org w p) \<noteq> (False, too_large_message (st_size f), [], st_size f)"
  proof (cases "organize_try org w p (st_size f)")
    case (Inl ehw)
    then show ?thesis
      by (cases ehw) (simp add: o organize_except_tables too_large_message_def)
  next
    case (Inr rw)
    then show ?thesis
      by (cases rw) (auto simp: o dest: organize_try_success)
  qed
  with o False show ?thesis by simp
qed

theorem size_limit_boundary_witness:
  "st_size (ex_file\<lparr>st_size := 1000 * mib + 1\<rparr>) = max_file_size_mb (org_config ex_org) * mib + 1 \<and>
   fst (organize_file ex_org
          (ex_world\<lparr>files := [([''watch'', ''a.txt''], ex_file\<lparr>st_size := 1000 * mib + 1\<rparr>)]\<rparr>)
          [''watch'', ''a.txt'']) =
     (False, too_large_message (1000 * mib + 1), [], 1000 * mib + 1) \<and>
   fst (organize_file ex_org
          (ex_world\<lparr>files := [([''watch'', ''a.txt''], ex_file\<lparr>st_size := 1000 * mib\<rparr>)]\<rparr>)
          [''watch'', ''a.txt'']) \<noteq>
     (False, too_large_message (1000 * mib), [], 1000 * mib)"
proof -
  let ?over = "ex_file\<lparr>st_size := 1000 * mib + 1\<rparr>"
  let ?exact = "ex_file\<lparr>st_size := 1000 * mib\<rparr>"
  let ?p = "[''watch'', ''a.txt'']"
  have m: "max_file_size_mb (org_config ex_org) = 1000"
    by (simp add: ex_org_def ex_config_def)
  have "map_of (files (ex_world\<lparr>files := [(?p, ?over)]\<rparr>)) ?p = Some ?over" "?p \<noteq> []"
    "\<not> is_dir ?over" "st_size ?over < 2 ^ 53"
    by (simp_all add: ex_file_def mib_def)
  from size_limit_boundary [OF this, of ex_org]
  have "max_file_size_mb (org_config ex_org) * mib < st_size ?over \<longrightarrow>
          fst (organize_file ex_org (ex_world\<lparr>files := [(?p, ?over)]\<rparr>) ?p) =
            (False, too_large_message (st_size ?over), [], st_size ?over)"
    by blast
  then have over: "fst (organize_file ex_org (ex_world\<lparr>files := [(?p, ?over)]\<rparr>) ?p) =
            (False, too_large_message (1000 * mib + 1), [], 1000 * mib + 1)"
    by (simp add: m)
  have "map_of (files (ex_world\<lparr>files := [(?p, ?exact)]\<rparr>)) ?p = Some ?exact" "?p \<noteq> []"
    "\<not> is_dir ?exact" "st_size ?exact < 2 ^ 53"
    by (simp_all add: ex_file_def mib_def)
  from size_limit_boundary [OF this, of ex_org]
  have "st_size ?exact \<le> max_file_size_mb (org_config ex_org) * mib \<longrightarrow>
          fst (organize_file ex_org (ex_world\<lparr>files := [(?p, ?exact)]\<rparr>) ?p) \<noteq>
            (False, too_large_message (st_size ?exact), [], st_size ?exact)"
    by blast
  then have exact: "fst (organize_file ex_org (ex_world\<lparr>files := [(?p, ?exact)]\<rparr>) ?p) \<noteq>
            (False, too_large_message (1000 * mib), [], 1000 * mib)"
    by (simp add: m)
  from over exact show ?thesis
    by (simp add: m)
qed

text \<open>
  Beyond \<open>2^53\<close> bytes the quotient is rounded: a file of \<open>2^53 + 1\<close> bytes is one byte
  over a limit of \<open>2^33\<close> megabytes, and it is organized.
\<close>

theorem size_limit_rounding_counterexample:
  "st_size cx_big_file = max_file_size_mb (org_config cx_big_org) * mib + 1 \<and>
   map_of (files cx_big_world) [''watch'', ''a.txt''] = Some cx_big_file \<and>
   fst (organize_file cx_big_org cx_big_world [''watch'', ''a.txt'']) =
     (True, ''Moved to Documents'', ''Documents'', 2 ^ 53 + 1)"
proof -
  have "\<not> size_mb_gt (2 ^ 53 + 1) (2 ^ 33)"
    using round53_big by (simp add: size_mb_gt_def mib_def)
  then show ?thesis
    by (simp add: organize_file_def stat_def organize_try_def cx_big_org_def cx_big_world_def
     ex_world_def ex_config_def ex_db_def mib_def
     organize_move_def classify_stage_def tier1_def tier3_def classify_def classify_by_extension_def
     EXTENSION_RULES_def path_suffix_def path_name_def name_suffix_def lower_def lower_char_def
     joinpath_def is_absolute_str_def parse_parts_def mkdir_parents_def os_mkdir_def path_exists_def
     path_is_dir_def path_is_file_def path_parent_def new_dir_def get_unique_path_def
     shutil_move_def os_rename_def cx_big_file_def ex_file_def fs_update_def fs_delete_def Let_def)
qed


lemmas run_defs =
  organize_file_def stat_def organize_try_def organize_move_def organize_duplicate_def
  organize_except_def compute_hash_def add_duplicate_hash_def get_connection_def
  connection_fails_def record_sighting_def log_operation_def insert_operation_def
  update_statistics_def upsert_statistic_def classify_stage_def tier1_def tier2_def tier3_def
  rule_metadata_def classify_def classify_by_extension_def classify_by_name_def
  EXTENSION_RULES_def KEYWORD_RULES_def matches_def match_pattern_def is_regex_pattern_def
  purepath_match_def pattern_root_def check_conditions_def
  joinpath_def is_absolute_str_def parse_parts_def str_path_def mkdir_parents_def os_mkdir_def
  path_exists_def path_is_dir_def path_is_file_def path_parent_def path_name_def path_suffix_def
  path_stem_def name_suffix_def name_stem_def lower_def lower_char_def new_dir_def
  get_unique_path_def shutil_move_def os_rename_def copy2_def os_unlink_def fs_update_def
  fs_delete_def ex_org_def ex_world_def ex_config_def ex_db_def ex_file_def mib_def day_us_def Let_def

subsection \<open>Rule precedence\<close>

lemma apply_rules_find:
  "apply_rules rules fs now p md = map_option target_folder (find (\<lambda>r. matches fs now r p md) rules)"
  by (induction rules) auto

lemma organize_try_result:
  assumes "organize_try org w p sz = Inr (r, w')"
  shows "r = (True, ''Duplicate detected'', ''Duplicates'', sz) \<or>
         r = (True, ''Moved to '' @ classify_stage org w p, classify_stage org w p, sz)"
  using assms
  by (auto simp: organize_try_def Let_def split: if_splits sum.splits prod.splits
        dest!: organize_move_Inr organize_duplicate_ledger)

lemma organize_file_category:
  assumes "fst (organize_file org w p) = (True, msg, cat, sz)" and "msg \<noteq> ''Duplicate detected''"
  shows "cat = classify_stage org w p \<and> msg = ''Moved to '' @ classify_stage org w p"
proof (cases "\<not> path_exists (files w) p \<or> \<not> path_is_file (files w) p")
  case True
  with assms show ?thesis by (simp add: organize_file_def)
next
  case False
  show ?thesis
  proof (cases "stat (files w) p")
    case (Inl e)
    with False assms show ?thesis
      by (simp add: organize_file_def organize_except_tables)
  next
    case (Inr f)
    show ?thesis
    proof (cases "size_mb_gt (st_size f) (max_file_size_mb (org_config org))")
      case True
      with False Inr assms show ?thesis
        by (simp add: organize_file_def Let_def)
    next
      case small: False
      show ?thesis
      proof (cases "organize_try org w p (st_size f)")
        case (Inl ehw)
        with False \<open>stat (files w) p = Inr f\<close> small assms show ?thesis
          by (cases ehw) (simp add: organize_file_def Let_def organize_except_tables)
      next
        case (Inr rw)
        then obtain r w' where t: "organize_try org w p (st_size f) = Inr (r, w')"
          by (cases rw) auto
        with False \<open>stat (files w) p = Inr f\<close> small assms(1) have "r = (True, msg, cat, sz)"
          by (simp add: organize_file_def Let_def)
        with organize_try_result [OF t] assms(2) show ?thesis by auto
      qed
    qed
  qed
qed

text \<open>
  C1, as the code has it. With a rules engine configured, let \<open>r\<close> be the first rule of
  the engine's list that matches the file (on the metadata computed for the rules). If
  its target folder is not the empty string, the classification stage yields that
  folder whatever the analyzer suggests and whatever the extension table and the
  keywords say, and a file that \<open>organize_file\<close> moves as a non-duplicate is reported
  under it. When the target is the empty string or no rule matches, the category is the
  one the lower tiers give.
\<close>

theorem first_matching_rule_decides_category:
  assumes "rules_engine org = Some rules"
  shows "(\<forall>r. find (\<lambda>r. matches (files w) (clock w) r p (rule_metadata org w p)) rules = Some r \<longrightarrow>
             target_folder r \<noteq> [] \<longrightarrow>
               classify_stage org w p = target_folder r \<and>
               (\<forall>msg cat sz. fst (organize_file org w p) = (True, msg, cat, sz) \<longrightarrow>
                  msg \<noteq> ''Duplicate detected'' \<longrightarrow>
                    cat = target_folder r \<and> msg = ''Moved to '' @ target_folder r)) \<and>
         ((find (\<lambda>r. matches (files w) (clock w) r p (rule_metadata org w p)) rules = None \<or>
           (\<exists>r. find (\<lambda>r. matches (files w) (clock w) r p (rule_metadata org w p)) rules = Some r \<and>
                target_folder r = [])) \<longrightarrow>
            classify_stage org w p = classify_stage (org\<lparr>rules_engine := None\<rparr>) w p)"
proof -
  let ?found = "find (\<lambda>r. matches (files w) (clock w) r p (rule_metadata org w p)) rules"
  have win: "classify_stage org w p = target_folder r"
    if "?found = Some r" and "target_folder r \<noteq> []" for r
    using that assms by (simp add: classify_stage_def tier1_def apply_rules_find)
  have lose: "classify_stage org w p = classify_stage (org\<lparr>rules_engine := None\<rparr>) w p"
    if "?found = None \<or> (\<exists>r. ?found = Some r \<and> target_folder r = [])"
    using that assms
    by (auto simp: classify_stage_def tier1_def tier2_def tier3_def apply_rules_find
          rule_metadata_def Let_def split: option.splits)
  from win lose show ?thesis
    by (auto dest: organize_file_category)
qed

theorem first_matching_rule_decides_category_witness:
  "find (\<lambda>r. matches (files ex_world) (clock ex_world) r [''watch'', ''a.txt'']
               (rule_metadata (with_rules [ex_text_rule]) ex_world [''watch'', ''a.txt'']))
      [ex_text_rule] = Some ex_text_rule \<and>
   target_folder ex_text_rule \<noteq> [] \<and>
   classify_stage (with_rules [ex_text_rule]) ex_world [''watch'', ''a.txt''] = ''Notes/Text'' \<and>
   classify_stage (with_rules [ex_text_rule]\<lparr>rules_engine := None\<rparr>) ex_world [''watch'', ''a.txt''] =
     ''Documents''"
proof -
  have m: "matches (files ex_world) (clock ex_world) ex_text_rule [''watch'', ''a.txt'']
             (rule_metadata (with_rules [ex_text_rule]) ex_world [''watch'', ''a.txt''])"
    by (simp add: matches_def ex_text_rule_def cx_empty_target_rule_def match_pattern_def
          is_regex_pattern_def purepath_match_def pattern_root_def is_absolute_str_def
          parse_parts_def check_conditions_def Let_def)
  then have f: "find (\<lambda>r. matches (files ex_world) (clock ex_world) r [''watch'', ''a.txt'']
               (rule_metadata (with_rules [ex_text_rule]) ex_world [''watch'', ''a.txt'']))
      [ex_text_rule] = Some ex_text_rule"
    by simp
  have t: "target_folder ex_text_rule \<noteq> []" "target_folder ex_text_rule = ''Notes/Text''"
    by (simp_all add: ex_text_rule_def)
  have "rules_engine (with_rules [ex_text_rule]) = Some [ex_text_rule]"
    by (simp add: with_rules_def)
  from first_matching_rule_decides_category [OF this, of ex_world "[''watch'', ''a.txt'']"] f t(1)
  have "classify_stage (with_rules [ex_text_rule]) ex_world [''watch'', ''a.txt''] =
          target_folder ex_text_rule"
    by blast
  moreover have "classify_stage (with_rules [ex_text_rule]\<lparr>rules_engine := None\<rparr>) ex_world
                   [''watch'', ''a.txt''] = ''Documents''"
    by (simp add: classify_stage_def tier1_def tier3_def with_rules_def ex_org_def ex_config_def
          classify_def classify_by_extension_def EXTENSION_RULES_def path_suffix_def path_name_def
          name_suffix_def lower_def lower_char_def)
  ultimately show ?thesis using f t by simp
qed

text \<open>
  A matching rule whose target folder is the empty string does not decide: the file goes
  where the extension table sends it.
\<close>

theorem empty_target_rule_counterexample:
  "enabled cx_empty_target_rule \<and>
   matches (files ex_world) (clock ex_world) cx_empty_target_rule [''watch'', ''a.txt'']
     (rule_metadata (with_rules [cx_empty_target_rule]) ex_world [''watch'', ''a.txt'']) \<and>
   target_folder cx_empty_target_rule = [] \<and>
   classify_stage (with_rules [cx_empty_target_rule]) ex_world [''watch'', ''a.txt''] = ''Documents'' \<and>
   fst (organize_file (with_rules [cx_empty_target_rule]) ex_world [''watch'', ''a.txt'']) =
     (True, ''Moved to Documents'', ''Documents'', 2048)"
proof -
  have m: "matches (files ex_world) (clock ex_world) cx_empty_target_rule [''watch'', ''a.txt''] md"
    for md
    by (simp add: matches_def cx_empty_target_rule_def match_pattern_def
          is_regex_pattern_def purepath_match_def pattern_root_def is_absolute_str_def
          parse_parts_def check_conditions_def Let_def)
  have c: "classify_stage (with_rules [cx_empty_target_rule]) ex_world [''watch'', ''a.txt''] =
             ''Documents''"
    using m
    by (simp add: classify_stage_def tier1_def tier3_def with_rules_def ex_org_def ex_config_def
          classify_def classify_by_extension_def EXTENSION_RULES_def path_suffix_def path_name_def
          name_suffix_def lower_def lower_char_def cx_empty_target_rule_def)
  have "fst (organize_file (with_rules [cx_empty_target_rule]) ex_world [''watch'', ''a.txt'']) =
     (True, ''Moved to Documents'', ''Documents'', 2048)"
    by (simp add: run_defs with_rules_def cx_empty_target_rule_def size_mb_gt_exact)
  with m c show ?thesis
    by (simp add: cx_empty_target_rule_def)
qed


subsection \<open>Conditions on content that was never analysed\<close>

lemma and_then_True: "and_then a b = Inr True \<Longrightarrow> b = Inr True"
  by (auto simp: and_then_def split: sum.splits if_splits)

lemma lower_Nil_iff: "lower t = [] \<longleftrightarrow> t = []"
  by (simp add: lower_def)

lemma py_in_Nil: "py_in sub [] \<longleftrightarrow> sub = []"
  by simp

text \<open>
  C6, as the code has it. A rule that requires a non-empty text, or the presence or the
  absence of GPS data, does not match when \<open>apply_rules\<close> is given no metadata;
  \<open>apply_rules\<close> goes on to the next rule and returns a value.
\<close>

theorem content_rule_without_metadata_is_skipped:
  assumes "(\<exists>t. contains_text (rule_conditions r) = Some t \<and> t \<noteq> []) \<or>
           (\<exists>v. has_gps (rule_conditions r) = Some v)"
  shows "\<not> matches fs now r p None \<and>
         apply_rules (r # rs) fs now p None = apply_rules rs fs now p None"
proof -
  from assms have ne: "rule_conditions r \<noteq> no_conditions"
    by (auto simp: no_conditions_def)
  from assms have "\<not> text_condition (rule_conditions r) None \<or> \<not> gps_condition (rule_conditions r) None"
    by (auto simp: text_condition_def gps_condition_def lower_def dict_get_def)
  then have "and_then (Inr (text_condition (rule_conditions r) None))
               (Inr (gps_condition (rule_conditions r) None)) \<noteq> Inr True"
    by (auto simp: and_then_def)
  with ne have "check_conditions fs now r p None \<noteq> Inr True"
    by (auto simp: check_conditions_def Let_def dest!: and_then_True)
  then have "\<not> matches fs now r p None"
    by (auto simp: matches_def split: sum.splits)
  then show ?thesis by simp
qed

theorem content_rule_without_metadata_is_skipped_witness:
  "contains_text (rule_conditions ex_invoice_text_rule) = Some ''invoice'' \<and>
   match_pattern ex_invoice_text_rule [''watch'', ''a.txt''] = Inr True \<and>
   \<not> matches (files ex_world) (clock ex_world) ex_invoice_text_rule [''watch'', ''a.txt''] None \<and>
   apply_rules [ex_invoice_text_rule, ex_text_rule] (files ex_world) (clock ex_world)
     [''watch'', ''a.txt''] None = Some ''Notes/Text''"
proof -
  have c: "contains_text (rule_conditions ex_invoice_text_rule) = Some ''invoice''"
    by (simp add: ex_invoice_text_rule_def no_conditions_def)
  then have "(\<exists>t. contains_text (rule_conditions ex_invoice_text_rule) = Some t \<and> t \<noteq> []) \<or>
           (\<exists>v. has_gps (rule_conditions ex_invoice_text_rule) = Some v)"
    by simp
  from content_rule_without_metadata_is_skipped [OF this]
  have s: "\<not> matches (files ex_world) (clock ex_world) ex_invoice_text_rule [''watch'', ''a.txt''] None"
    and a: "apply_rules [ex_invoice_text_rule, ex_text_rule] (files ex_world) (clock ex_world)
              [''watch'', ''a.txt''] None =
            apply_rules [ex_text_rule] (files ex_world) (clock ex_world) [''watch'', ''a.txt''] None"
    by blast+
  have m: "match_pattern ex_invoice_text_rule [''watch'', ''a.txt''] = Inr True"
    by (simp add: run_defs ex_invoice_text_rule_def ex_text_rule_def cx_empty_target_rule_def)
  have "apply_rules [ex_text_rule] (files ex_world) (clock ex_world) [''watch'', ''a.txt''] None =
          Some ''Notes/Text''"
    by (simp add: run_defs ex_text_rule_def cx_empty_target_rule_def)
  with c s a m show ?thesis by simp
qed

text \<open>
  The empty string is contained in every text, the empty one included: a rule that
  requires it matches without metadata.
\<close>

theorem empty_text_condition_counterexample:
  "contains_text (rule_conditions cx_empty_text_rule) = Some [] \<and>
   matches (files ex_world) (clock ex_world) cx_empty_text_rule [''watch'', ''a.txt''] None \<and>
   apply_rules [cx_empty_text_rule] (files ex_world) (clock ex_world) [''watch'', ''a.txt''] None =
     Some ''Notes/Text''"
  by (simp add: run_defs cx_empty_text_rule_def ex_text_rule_def cx_empty_target_rule_def
        no_conditions_def and_then_def with_stat_def text_condition_def gps_condition_def)

subsection \<open>The GPS condition\<close>

lemma analyzed_photo_metadata:
  "an_metadata (analyze_file ex_analyzer [([''watch'', ''p.jpg''], ex_photo exif)] [''watch'', ''p.jpg'']) =
     (let md0 = [(''width'', PyInt 640), (''height'', PyInt 480), (''format'', PyStr ''JPEG''),
                 (''mode'', PyStr ''RGB'')];
          md1 = copy_exif exif ''DateTime'' ''date_taken'' md0;
          md2 = copy_exif exif ''Make'' ''camera_make'' md1;
          md3 = copy_exif exif ''Model'' ''camera_model'' md2
      in if ''GPSInfo'' \<in> fst ` set exif then dict_set ''has_gps'' (PyBool True) md3 else md3)"
  by (simp add: analyze_file_def get_file_type_def analyze_image_def ex_photo_def ex_analyzer_def
        ex_file_def run_defs)

text \<open>
  C5 at a photo without GPS data. The analyzer leaves \<open>has_gps\<close> out of the metadata, the
  lookup yields \<open>None\<close>, and \<open>None != False\<close> holds: the rule that asks for the absence
  of GPS data rejects the file, as the rule that asks for its presence does.
\<close>

theorem has_gps_false_rejects_photo_without_gps:
  "dict_get (an_metadata (analyze_file ex_analyzer [([''watch'', ''p.jpg''], ex_photo [(''Make'', PyStr ''Canon'')])]
                [''watch'', ''p.jpg''])) ''has_gps'' = PyNone \<and>
   match_pattern (ex_gps_rule False) [''watch'', ''p.jpg''] = Inr True \<and>
   check_conditions [([''watch'', ''p.jpg''], ex_photo [(''Make'', PyStr ''Canon'')])] 1000 (ex_gps_rule False)
     [''watch'', ''p.jpg'']
     (Some (analyze_file ex_analyzer [([''watch'', ''p.jpg''], ex_photo [(''Make'', PyStr ''Canon'')])]
              [''watch'', ''p.jpg''])) = Inr False \<and>
   \<not> matches [([''watch'', ''p.jpg''], ex_photo [(''Make'', PyStr ''Canon'')])] 1000 (ex_gps_rule False)
     [''watch'', ''p.jpg'']
     (Some (analyze_file ex_analyzer [([''watch'', ''p.jpg''], ex_photo [(''Make'', PyStr ''Canon'')])]
              [''watch'', ''p.jpg''])) \<and>
   \<not> matches [([''watch'', ''p.jpg''], ex_photo [(''Make'', PyStr ''Canon'')])] 1000 (ex_gps_rule True)
     [''watch'', ''p.jpg'']
     (Some (analyze_file ex_analyzer [([''watch'', ''p.jpg''], ex_photo [(''Make'', PyStr ''Canon'')])]
              [''watch'', ''p.jpg'']))"
  by (simp add: analyzed_photo_metadata run_defs ex_gps_rule_def no_conditions_def and_then_def
        with_stat_def text_condition_def gps_condition_def copy_exif_def dict_set_def dict_get_def)

lemma has_gps_true_matches_photo_with_gps:
  "matches [([''watch'', ''p.jpg''], ex_photo [(''GPSInfo'', PyInt 1)])] 1000 (ex_gps_rule True)
     [''watch'', ''p.jpg'']
     (Some (analyze_file ex_analyzer [([''watch'', ''p.jpg''], ex_photo [(''GPSInfo'', PyInt 1)])]
              [''watch'', ''p.jpg''])) \<and>
   \<not> matches [([''watch'', ''p.jpg''], ex_photo [(''GPSInfo'', PyInt 1)])] 1000 (ex_gps_rule False)
     [''watch'', ''p.jpg'']
     (Some (analyze_file ex_analyzer [([''watch'', ''p.jpg''], ex_photo [(''GPSInfo'', PyInt 1)])]
              [''watch'', ''p.jpg'']))"
  by (simp add: analyzed_photo_metadata run_defs ex_gps_rule_def no_conditions_def and_then_def
        with_stat_def text_condition_def gps_condition_def copy_exif_def dict_set_def dict_get_def)

subsection \<open>Glob or regular expression\<close>

lemma match_pattern_dispatch:
  "match_pattern r p =
     (if list_ex (\<lambda>c. c \<in> set (pattern r)) ''[]()^$+''
      then re_match_ignorecase (pattern r) (path_name p)
      else purepath_match p (pattern r))"
  by (simp add: match_pattern_def is_regex_pattern_def)

lemma regex_invoice_compiles:
  "re_compile (''invoice_[0-9]+'' @ [CHR 0x5C] @ ''.pdf'') =
     Some (Cat (Chr CHR ''i'') (Cat (Chr CHR ''n'') (Cat (Chr CHR ''v'') (Cat (Chr CHR ''o'')
         (Cat (Chr CHR ''i'') (Cat (Chr CHR ''c'') (Cat (Chr CHR ''e'') (Cat (Chr CHR ''_'')
         (Cat (Cat (CSet False [CRange CHR ''0'' CHR ''9'']) (Star (CSet False [CRange CHR ''0'' CHR ''9''])))
         (Cat (Chr CHR ''.'') (Cat (Chr CHR ''p'') (Cat (Chr CHR ''d'') (Cat (Chr CHR ''f'') Eps)))))))))))))"
  by code_simp

lemma split_slash_no_slash: "CHR ''/'' \<notin> set s \<Longrightarrow> split_slash s = [s]"
  by (induction s) auto

lemma glob_without_slash_is_on_the_filename:
  assumes "CHR ''/'' \<notin> set pat" and "pat \<noteq> []" and "pat \<noteq> ''.''" and "p \<noteq> []"
  shows "purepath_match p pat = Inr (fnmatchcase (path_name p) pat)"
proof -
  from assms have parts: "parse_parts pat = [pat]"
    by (simp add: parse_parts_def split_slash_no_slash)
  from assms have root: "pattern_root pat = []"
    by (cases pat) (auto simp: pattern_root_def is_absolute_str_def)
  from \<open>p \<noteq> []\<close> obtain x xs where rp: "rev p = x # xs"
    by (cases "rev p") auto
  then have "last p = x"
    using hd_rev [of p] by simp
  with parts root rp \<open>p \<noteq> []\<close> show ?thesis
    by (simp add: purepath_match_def path_name_def)
qed

lemma claimed_examples_hold:
  "\<not> is_regex_pattern ''*invoice*'' \<and>
   match_pattern (ex_pattern_rule ''*invoice*'') [''watch'', ''March_invoice.pdf''] = Inr True \<and>
   is_regex_pattern (''invoice_[0-9]+'' @ [CHR 0x5C] @ ''.pdf'') \<and>
   match_pattern (ex_pattern_rule (''invoice_[0-9]+'' @ [CHR 0x5C] @ ''.pdf''))
     [''watch'', ''invoice_42.pdf''] = Inr True \<and>
   match_pattern (ex_pattern_rule (''invoice_[0-9]+'' @ [CHR 0x5C] @ ''.pdf''))
     [''watch'', ''invoice_abc.pdf''] = Inr False"
proof -
  let ?pat = "''invoice_[0-9]+'' @ [CHR 0x5C] @ ''.pdf''"
  let ?R = "Cat (Chr CHR ''i'') (Cat (Chr CHR ''n'') (Cat (Chr CHR ''v'') (Cat (Chr CHR ''o'')
         (Cat (Chr CHR ''i'') (Cat (Chr CHR ''c'') (Cat (Chr CHR ''e'') (Cat (Chr CHR ''_'')
         (Cat (Cat (CSet False [CRange CHR ''0'' CHR ''9'']) (Star (CSet False [CRange CHR ''0'' CHR ''9''])))
         (Cat (Chr CHR ''.'') (Cat (Chr CHR ''p'') (Cat (Chr CHR ''d'') (Cat (Chr CHR ''f'') Eps))))))))))))"
  have g: "match_pattern (ex_pattern_rule ''*invoice*'') [''watch'', ''March_invoice.pdf''] = Inr True"
    by (simp add: run_defs ex_pattern_rule_def ex_text_rule_def cx_empty_target_rule_def)
  have r: "is_regex_pattern ?pat"
    by (simp add: is_regex_pattern_def)
  have c: "re_match_ignorecase ?pat s = Inr (rests ?R (length s) s \<noteq> [])" for s
    by (simp only: re_match_ignorecase_def regex_invoice_compiles option.case)
  have m: "match_pattern (ex_pattern_rule ?pat) [''watch'', nm] = re_match_ignorecase ?pat nm" for nm
    using r by (simp add: match_pattern_def ex_pattern_rule_def path_name_def)
  have "rests ?R (length ''invoice_42.pdf'') ''invoice_42.pdf'' \<noteq> []"
    by code_simp
  then have y: "match_pattern (ex_pattern_rule ?pat) [''watch'', ''invoice_42.pdf''] = Inr True"
    by (simp only: m c simp_thms)
  have "\<not> rests ?R (length ''invoice_abc.pdf'') ''invoice_abc.pdf'' \<noteq> []"
    by code_simp
  then have n: "match_pattern (ex_pattern_rule ?pat) [''watch'', ''invoice_abc.pdf''] = Inr False"
    by (simp only: m c simp_thms)
  have "\<not> is_regex_pattern ''*invoice*''"
    by (simp add: is_regex_pattern_def)
  with g r y n show ?thesis by blast
qed

text \<open>
  C3 at a glob with a directory part. The pattern \<open>watch/*.txt\<close> has none of the
  characters that select the regular-expression branch; \<open>PurePath.match\<close> compares it
  with the last two parts of the path and accepts \<open>/home/watch/a.txt\<close>, although the
  file name \<open>a.txt\<close> alone does not match the glob; the same file in another directory
  is refused.
\<close>

theorem glob_is_matched_against_the_path:
  "\<not> is_regex_pattern ''watch/*.txt'' \<and>
   match_pattern (ex_pattern_rule ''watch/*.txt'') [''home'', ''watch'', ''a.txt''] = Inr True \<and>
   match_pattern (ex_pattern_rule ''watch/*.txt'') [''home'', ''inbox'', ''a.txt''] = Inr False \<and>
   path_name [''home'', ''watch'', ''a.txt''] = path_name [''home'', ''inbox'', ''a.txt''] \<and>
   \<not> fnmatchcase (path_name [''home'', ''watch'', ''a.txt'']) ''watch/*.txt''"
  by (simp add: run_defs ex_pattern_rule_def ex_text_rule_def cx_empty_target_rule_def)


subsection \<open>A move that succeeds\<close>

lemma organize_duplicate_moves:
  assumes "map_of (files w) p = Some f" and "\<not> is_dir f"
    and "mkdir_parents (files w) (readonly_dirs w) (clock w) (duplicate_folder (org_config org)) = Inr fs1"
    and "path_parent p \<notin> set (readonly_dirs w)"
    and "duplicate_folder (org_config org) \<notin> set (readonly_dirs w)"
  shows "organize_duplicate org w p sz h =
           Inr ((True, ''Duplicate detected'', ''Duplicates'', sz),
                w\<lparr>files := fs_update (get_unique_path fs1 (duplicate_folder (org_config org) @ [path_name p])) f
                             (fs_delete p fs1),
                  db := update_statistics (clock w)
                          (snd (log_operation (clock w) (db w) (path_name p) (str_path p)
                                  (str_path (get_unique_path fs1
                                     (duplicate_folder (org_config org) @ [path_name p])))
                                  ''Duplicates'' ''duplicate'' sz (Some h) True None))
                          ''Duplicates'' 1 sz 1 0,
                  stats_duplicates := Suc (stats_duplicates w),
                  stats_processed := Suc (stats_processed w)\<rparr>)"
proof -
  let ?dest = "get_unique_path fs1 (duplicate_folder (org_config org) @ [path_name p])"
  from mkdir_parents_Inr [OF assms(3)] assms(1)
  have d: "path_is_dir fs1 (duplicate_folder (org_config org))" and s: "map_of fs1 p = Some f"
    by simp_all
  have "shutil_move fs1 (readonly_dirs w) p ?dest = Inr (fs_update ?dest f (fs_delete p fs1))"
    using s assms(2) get_unique_path_free d assms(4,5)
    by (intro move_file_to_fresh) (simp_all add: get_unique_path_parent)
  with assms(3) show ?thesis
    by (simp add: organize_duplicate_def Let_def)
qed

lemma organize_move_moves:
  assumes "map_of (files w) p = Some f" and "\<not> is_dir f"
    and "mkdir_parents (files w) (readonly_dirs w) (clock w)
           (joinpath (organized_folder (org_config org)) c) = Inr fs1"
    and "path_parent p \<notin> set (readonly_dirs w)"
    and "joinpath (organized_folder (org_config org)) c \<notin> set (readonly_dirs w)"
  shows "organize_move org w p sz h c =
           Inr ((True, ''Moved to '' @ c, c, sz),
                w\<lparr>files := fs_update (get_unique_path fs1
                                        (joinpath (organized_folder (org_config org)) c @ [path_name p])) f
                             (fs_delete p fs1),
                  db := update_statistics (clock w)
                          (snd (log_operation (clock w) (db w) (path_name p) (str_path p)
                                  (str_path (get_unique_path fs1
                                     (joinpath (organized_folder (org_config org)) c @ [path_name p])))
                                  c ''organize'' sz h True None))
                          c 1 sz 0 0,
                  stats_processed := Suc (stats_processed w)\<rparr>)"
proof -
  let ?dest = "get_unique_path fs1 (joinpath (organized_folder (org_config org)) c @ [path_name p])"
  from mkdir_parents_Inr [OF assms(3)] assms(1)
  have d: "path_is_dir fs1 (joinpath (organized_folder (org_config org)) c)"
    and s: "map_of fs1 p = Some f"
    by simp_all
  have "shutil_move fs1 (readonly_dirs w) p ?dest = Inr (fs_update ?dest f (fs_delete p fs1))"
    using s assms(2) get_unique_path_free d assms(4,5)
    by (intro move_file_to_fresh) (simp_all add: get_unique_path_parent)
  with assms(3) show ?thesis
    by (simp add: organize_move_def Let_def)
qed

lemma record_sighting_seen:
  "list_ex (\<lambda>e. dh_file_hash e = h) (duplicate_hashes d) \<Longrightarrow>
   record_sighting now h fp sz d =
     (True, d\<lparr>duplicate_hashes :=
               map (\<lambda>e. if dh_file_hash e = h
                         then e\<lparr>last_seen := now, duplicate_count := Suc (duplicate_count e)\<rparr>
                         else e) (duplicate_hashes d)\<rparr>)"
  by (simp add: record_sighting_def)

lemma record_sighting_new:
  "\<not> list_ex (\<lambda>e. dh_file_hash e = h) (duplicate_hashes d) \<Longrightarrow>
   record_sighting now h fp sz d =
     (False, d\<lparr>duplicate_hashes := duplicate_hashes d @
               [\<lparr>dh_file_hash = h, dh_original_path = fp, dh_file_size = sz,
                 first_seen = now, last_seen = now, duplicate_count = 0\<rparr>]\<rparr>)"
  by (simp add: record_sighting_def)

text \<open>
  C2, as the code has it, when the ledger's connection works. A file whose digest is in
  the index, with the duplicate folder there or creatable and both directories open to
  changes: the outcome is \<open>Duplicate\<close>; the file is at a path inside the duplicate folder
  that was free before, and no longer at its own; every other entry of the file system
  stays; in the index the entries of that digest have their counter raised by one and
  their last-seen time refreshed, their recorded path and all other entries are
  unchanged. A file whose digest is not in the index: the sighting is appended with
  counter 0, the call reports \<open>False\<close>, and the file goes through classification and
  the ordinary move.
\<close>

theorem duplicate_outcome_and_first_sighting:
  assumes "enable_duplicates (org_config org)"
    and "map_of (files w) p = Some f" and "p \<noteq> []" and "\<not> is_dir f" and "readable f"
    and "\<not> size_mb_gt (st_size f) (max_file_size_mb (org_config org))"
    and "\<not> connection_fails (db w)"
  shows "(list_ex (\<lambda>e. dh_file_hash e = sha256 f) (duplicate_hashes (db w)) \<longrightarrow>
          mkdir_parents (files w) (readonly_dirs w) (clock w) (duplicate_folder (org_config org)) = Inr fs1 \<longrightarrow>
          path_parent p \<notin> set (readonly_dirs w) \<longrightarrow>
          duplicate_folder (org_config org) \<notin> set (readonly_dirs w) \<longrightarrow>
            fst (organize_file org w p) = (True, ''Duplicate detected'', ''Duplicates'', st_size f) \<and>
            path_parent (get_unique_path fs1 (duplicate_folder (org_config org) @ [path_name p])) =
              duplicate_folder (org_config org) \<and>
            map_of (files w) (get_unique_path fs1 (duplicate_folder (org_config org) @ [path_name p])) = None \<and>
            map_of (files (snd (organize_file org w p)))
              (get_unique_path fs1 (duplicate_folder (org_config org) @ [path_name p])) = Some f \<and>
            map_of (files (snd (organize_file org w p))) p = None \<and>
            (\<forall>q g. q \<noteq> p \<longrightarrow> map_of (files w) q = Some g \<longrightarrow>
                    map_of (files (snd (organize_file org w p))) q = Some g) \<and>
            duplicate_hashes (db (snd (organize_file org w p))) =
              map (bump (sha256 f) (clock w)) (duplicate_hashes (db w)) \<and>
            map dh_original_path (duplicate_hashes (db (snd (organize_file org w p)))) =
              map dh_original_path (duplicate_hashes (db w))) \<and>
         (\<not> list_ex (\<lambda>e. dh_file_hash e = sha256 f) (duplicate_hashes (db w)) \<longrightarrow>
            add_duplicate_hash (clock w) (db w) (sha256 f) (str_path p) (st_size f) =
              (False, (db w)\<lparr>faults := tl (faults (db w)),
                            duplicate_hashes := duplicate_hashes (db w) @
                              [\<lparr>dh_file_hash = sha256 f, dh_original_path = str_path p,
                                dh_file_size = st_size f, first_seen = clock w, last_seen = clock w,
                                duplicate_count = 0\<rparr>]\<rparr>) \<and>
            organize_file org w p =
              (case organize_move org (w\<lparr>db := snd (add_duplicate_hash (clock w) (db w) (sha256 f)
                                                     (str_path p) (st_size f))\<rparr>)
                      p (st_size f) (Some (sha256 f)) (classify_stage org w p) of
                 Inl (e, w') \<Rightarrow> organize_except w' p (st_size f) (Some (sha256 f)) e
               | Inr r \<Rightarrow> r))"
proof -
  let ?h = "sha256 f" and ?sz = "st_size f"
  let ?a = "add_duplicate_hash (clock w) (db w) ?h (str_path p) ?sz"
  have h: "compute_hash (files w) p = Inr ?h"
    using assms by (simp add: compute_hash_def)
  have o: "organize_file org w p =
             (case organize_try org w p ?sz of
                Inl (e, file_hash, w') \<Rightarrow> organize_except w' p ?sz file_hash e
              | Inr r \<Rightarrow> r)"
    using assms(2,3,4,6) by (rule organize_file_admitted)
  have a: "?a = record_sighting (clock w) ?h (str_path p) ?sz ((db w)\<lparr>faults := tl (faults (db w))\<rparr>)"
    using assms(7) by (rule add_duplicate_hash_ok)
  have first: ?thesis if new: "\<not> list_ex (\<lambda>e. dh_file_hash e = ?h) (duplicate_hashes (db w))"
  proof -
    from new a have a': "?a = (False, (db w)\<lparr>faults := tl (faults (db w)),
                            duplicate_hashes := duplicate_hashes (db w) @
                              [\<lparr>dh_file_hash = ?h, dh_original_path = str_path p,
                                dh_file_size = ?sz, first_seen = clock w, last_seen = clock w,
                                duplicate_count = 0\<rparr>]\<rparr>)"
      by (simp add: record_sighting_new)
    then have "organize_try org w p ?sz =
                 (case organize_move org (w\<lparr>db := snd ?a\<rparr>) p ?sz (Some ?h) (classify_stage org w p) of
                    Inl (e, w') \<Rightarrow> Inl (e, Some ?h, w') | Inr r \<Rightarrow> Inr r)"
      using assms(1) h by (simp add: organize_try_def)
    then have "organize_file org w p =
                 (case organize_move org (w\<lparr>db := snd ?a\<rparr>) p ?sz (Some ?h) (classify_stage org w p) of
                    Inl (e, w') \<Rightarrow> organize_except w' p ?sz (Some ?h) e | Inr r \<Rightarrow> r)"
      by (simp add: o split: sum.splits)
    with new a' show ?thesis by simp
  qed
  have seen: ?thesis
    if old: "list_ex (\<lambda>e. dh_file_hash e = ?h) (duplicate_hashes (db w))"
      and nomk: "mkdir_parents (files w) (readonly_dirs w) (clock w) (duplicate_folder (org_config org)) \<noteq> Inr fs1 \<or>
                 path_parent p \<in> set (readonly_dirs w) \<or>
                 duplicate_folder (org_config org) \<in> set (readonly_dirs w)"
    using that by blast
  have dup: ?thesis
    if old: "list_ex (\<lambda>e. dh_file_hash e = ?h) (duplicate_hashes (db w))"
      and mk: "mkdir_parents (files w) (readonly_dirs w) (clock w) (duplicate_folder (org_config org)) = Inr fs1"
      and p1: "path_parent p \<notin> set (readonly_dirs w)"
      and p2: "duplicate_folder (org_config org) \<notin> set (readonly_dirs w)"
  proof -
    let ?dest = "get_unique_path fs1 (duplicate_folder (org_config org) @ [path_name p])"
    let ?d1 = "(db w)\<lparr>faults := tl (faults (db w)),
                 duplicate_hashes := map (bump ?h (clock w)) (duplicate_hashes (db w))\<rparr>"
    from old a have a': "?a = (True, ?d1)"
      by (simp add: record_sighting_seen bump_def [abs_def])
    let ?w1 = "w\<lparr>db := ?d1\<rparr>"
    let ?w2 = "?w1\<lparr>files := fs_update ?dest f (fs_delete p fs1),
                  db := update_statistics (clock ?w1)
                          (snd (log_operation (clock ?w1) (db ?w1) (path_name p) (str_path p)
                                  (str_path ?dest) ''Duplicates'' ''duplicate'' ?sz (Some ?h) True None))
                          ''Duplicates'' 1 ?sz 1 0,
                  stats_duplicates := Suc (stats_duplicates ?w1),
                  stats_processed := Suc (stats_processed ?w1)\<rparr>"
    have m: "organize_duplicate org ?w1 p ?sz ?h =
               Inr ((True, ''Duplicate detected'', ''Duplicates'', ?sz), ?w2)"
      using assms(2,4) mk p1 p2 by (intro organize_duplicate_moves) simp_all
    have t: "organize_try org w p ?sz = Inr ((True, ''Duplicate detected'', ''Duplicates'', ?sz), ?w2)"
      using assms(1) h a' by (simp add: organize_try_def m)
    have r: "organize_file org w p = ((True, ''Duplicate detected'', ''Duplicates'', ?sz), ?w2)"
      by (simp add: o t)
    have fresh: "map_of fs1 ?dest = None"
      using get_unique_path_free [of fs1 "duplicate_folder (org_config org) @ [path_name p]"]
      by (simp add: path_exists_def)
    then have fresh0: "map_of (files w) ?dest = None"
      using mkdir_parents_Inr(2) [OF mk, of ?dest] by (cases "map_of (files w) ?dest") auto
    have ne: "?dest \<noteq> p"
      using fresh mkdir_parents_Inr(2) [OF mk assms(2)] by auto
    have others: "map_of (files (snd (organize_file org w p))) q = Some g"
      if "q \<noteq> p" and "map_of (files w) q = Some g" for q g
    proof -
      from that(2) have "map_of fs1 q = Some g"
        by (rule mkdir_parents_Inr(2) [OF mk])
      moreover from this fresh have "q \<noteq> ?dest" by auto
      ultimately show ?thesis
        using that(1) by (simp add: r map_of_fs_update map_of_fs_delete)
    qed
    have idx: "duplicate_hashes (db (snd (organize_file org w p))) =
                 map (bump ?h (clock w)) (duplicate_hashes (db w))"
      by (simp add: r update_statistics_other_tables log_operation_other_tables)
    have paths: "map dh_original_path (map (bump ?h (clock w)) (duplicate_hashes (db w))) =
                   map dh_original_path (duplicate_hashes (db w))"
      by (induction "duplicate_hashes (db w)") (simp_all add: bump_def)
    have "fst (organize_file org w p) = (True, ''Duplicate detected'', ''Duplicates'', ?sz)"
      by (simp add: r)
    moreover have "path_parent ?dest = duplicate_folder (org_config org)"
      by (rule get_unique_path_parent)
    moreover have "map_of (files (snd (organize_file org w p))) ?dest = Some f"
      by (simp add: r map_of_fs_update)
    moreover have "map_of (files (snd (organize_file org w p))) p = None"
      using ne by (simp add: r map_of_fs_update map_of_fs_delete)
    ultimately show ?thesis
      using old fresh0 others idx paths by simp
  qed
  from first seen dup show ?thesis by blast
qed

lemmas undo_defs =
  undo_operation_def get_operation_history_def mark_operation_undone_def set_undone_def

theorem duplicate_outcome_and_first_sighting_witness:
  "list_ex (\<lambda>e. dh_file_hash e = sha256 ex_file) (duplicate_hashes (db (ex_world_seen []))) \<and>
   fst (organize_file ex_org (ex_world_seen []) [''watch'', ''a.txt'']) =
     (True, ''Duplicate detected'', ''Duplicates'', st_size ex_file) \<and>
   map_of (files (snd (organize_file ex_org (ex_world_seen []) [''watch'', ''a.txt''])))
     [''dups'', ''a.txt''] = Some ex_file \<and>
   map_of (files (snd (organize_file ex_org (ex_world_seen []) [''watch'', ''a.txt''])))
     [''watch'', ''a.txt''] = None \<and>
   map duplicate_count (duplicate_hashes (db (snd (organize_file ex_org (ex_world_seen [])
     [''watch'', ''a.txt''])))) = [1]"
proof -
  let ?w = "ex_world_seen []" and ?p = "[''watch'', ''a.txt'']"
  let ?fs1 = "files ex_world @ [([''dups''], new_dir 1000)]"
  have u: "get_unique_path ?fs1 (duplicate_folder (org_config ex_org) @ [path_name ?p]) =
             [''dups'', ''a.txt'']"
    by (simp add: run_defs)
  have s: "list_ex (\<lambda>e. dh_file_hash e = sha256 ex_file) (duplicate_hashes (db ?w))"
    by (simp add: ex_world_seen_def ex_sighting_def ex_file_def)
  have "enable_duplicates (org_config ex_org)" "map_of (files ?w) ?p = Some ex_file" "?p \<noteq> []"
    "\<not> is_dir ex_file" "readable ex_file"
    "\<not> size_mb_gt (st_size ex_file) (max_file_size_mb (org_config ex_org))"
    "\<not> connection_fails (db ?w)"
    by (simp_all add: ex_world_seen_def run_defs size_mb_gt_exact)
  from duplicate_outcome_and_first_sighting [OF this, of ?fs1, THEN conjunct1, rule_format, OF s]
  have "fst (organize_file ex_org ?w ?p) = (True, ''Duplicate detected'', ''Duplicates'', st_size ex_file) \<and>
        map_of (files (snd (organize_file ex_org ?w ?p)))
          (get_unique_path ?fs1 (duplicate_folder (org_config ex_org) @ [path_name ?p])) = Some ex_file \<and>
        map_of (files (snd (organize_file ex_org ?w ?p))) ?p = None \<and>
        duplicate_hashes (db (snd (organize_file ex_org ?w ?p))) =
          map (bump (sha256 ex_file) (clock ?w)) (duplicate_hashes (db ?w))"
    by (simp add: ex_world_seen_def run_defs)
  then show ?thesis
    using s by (simp add: u) (simp add: ex_world_seen_def ex_sighting_def bump_def ex_file_def)
qed

text \<open>
  The index does not tell a second copy from the first file coming round again. A file
  is organized for the first time, the operation is undone, and the file, back at the
  path the index recorded, is organized again: it is taken for a duplicate of itself and
  moved to the duplicate folder; nothing is left at the recorded path.
\<close>

theorem canonical_file_moved_to_duplicates_counterexample:
  "fst (organize_file ex_org ex_world [''watch'', ''a.txt'']) =
     (True, ''Moved to Documents'', ''Documents'', 2048) \<and>
   map dh_original_path (duplicate_hashes (db cx_after_first)) = [''/watch/a.txt''] \<and>
   fst (undo_operation cx_after_first 1 True) = Restored \<and>
   map_of (files cx_after_undo) [''watch'', ''a.txt''] = Some ex_file \<and>
   list_ex (\<lambda>e. dh_file_hash e = sha256 ex_file) (duplicate_hashes (db cx_after_undo)) \<and>
   fst (organize_file ex_org cx_after_undo [''watch'', ''a.txt'']) =
     (True, ''Duplicate detected'', ''Duplicates'', 2048) \<and>
   map_of (files (snd (organize_file ex_org cx_after_undo [''watch'', ''a.txt''])))
     [''watch'', ''a.txt''] = None \<and>
   map_of (files (snd (organize_file ex_org cx_after_undo [''watch'', ''a.txt''])))
     [''dups'', ''a.txt''] = Some ex_file \<and>
   map dh_original_path
     (duplicate_hashes (db (snd (organize_file ex_org cx_after_undo [''watch'', ''a.txt''])))) =
     [''/watch/a.txt'']"
  by (simp add: cx_after_undo_def cx_after_first_def run_defs undo_defs size_mb_gt_exact)


subsection \<open>Paths and their strings\<close>

lemma split_slash_not_Nil: "split_slash s \<noteq> []"
  by (induction s) (auto split: list.splits)

lemma split_slash_append:
  "CHR ''/'' \<notin> set c \<Longrightarrow>
   split_slash (c @ r) = (c @ hd (split_slash r)) # tl (split_slash r)"
proof (induction c)
  case Nil
  then show ?case using split_slash_not_Nil [of r] by simp
next
  case (Cons x c)
  then show ?case using split_slash_not_Nil [of "c @ r"] by (auto split: list.splits)
qed

lemma split_slash_concat:
  "list_all (\<lambda>c. CHR ''/'' \<notin> set c) p \<Longrightarrow> p \<noteq> [] \<Longrightarrow>
   split_slash (concat (map (\<lambda>c. CHR ''/'' # c) p)) = [] # p"
proof (induction p)
  case Nil
  then show ?case by simp
next
  case (Cons c p)
  show ?case
  proof (cases "p = []")
    case True
    with Cons.prems show ?thesis
      using split_slash_append [of c "[]"] by simp
  next
    case False
    with Cons have "split_slash (concat (map (\<lambda>c. CHR ''/'' # c) p)) = [] # p" by simp
    with Cons.prems show ?thesis
      using split_slash_append [of c "concat (map (\<lambda>c. CHR ''/'' # c) p)"] by simp
  qed
qed

lemma parse_parts_str_path: "wf_path p \<Longrightarrow> parse_parts (str_path p) = p"
proof (cases "p = []")
  case True
  then show ?thesis by (simp add: parse_parts_def str_path_def)
next
  case False
  assume wf: "wf_path p"
  then have "list_all (\<lambda>c. CHR ''/'' \<notin> set c) p"
    by (simp add: wf_path_def wf_component_def list_all_iff)
  with False have "split_slash (str_path p) = [] # p"
    by (simp add: str_path_def split_slash_concat)
  moreover from wf have "filter (\<lambda>c. c \<noteq> [] \<and> c \<noteq> ''.'') p = p"
    by (auto simp: wf_path_def wf_component_def list_all_iff intro!: filter_True)
  ultimately show ?thesis by (simp add: parse_parts_def)
qed

lemma str_path_absolute: "is_absolute_str (str_path p)"
  by (cases p) (simp_all add: str_path_def is_absolute_str_def)

lemma joinpath_str_path: "wf_path p \<Longrightarrow> joinpath base (str_path p) = p"
  by (simp add: joinpath_def str_path_absolute parse_parts_str_path)

lemma split_slash_no_slashes: "c \<in> set (split_slash s) \<Longrightarrow> CHR ''/'' \<notin> set c"
  by (induction s arbitrary: c) (auto split: if_splits list.splits)

lemma wf_parse_parts: "wf_path (parse_parts s)"
  by (auto simp: wf_path_def parse_parts_def wf_component_def list_all_iff
        dest: split_slash_no_slashes)

lemma wf_joinpath: "wf_path base \<Longrightarrow> wf_path (joinpath base s)"
  using wf_parse_parts [of s] by (simp add: joinpath_def wf_path_def)

lemma digit_char_not_slash: "d < 10 \<Longrightarrow> digit_char d \<noteq> CHR ''/''"
  by (simp add: digit_char_def char_of_eq_iff take_bit_eq_mod)

lemma str_nat_no_slash: "CHR ''/'' \<notin> set (str_nat n)"
proof (induction n rule: str_nat.induct)
  case (1 n)
  show ?case
  proof (cases "n < 10")
    case True
    then show ?thesis
      using digit_char_not_slash [of n] by (simp add: str_nat.simps [of n])
  next
    case False
    with "1.IH" show ?thesis
      using digit_char_not_slash [of "n mod 10"] by (simp add: str_nat.simps [of n])
  qed
qed

lemma name_suffix_chars: "set (name_suffix nm) \<subseteq> insert (CHR ''.'') (set nm)"
  by (auto simp: name_suffix_def Let_def dest: set_takeWhileD)

lemma name_stem_chars: "set (name_stem nm) \<subseteq> set nm"
  by (auto simp: name_stem_def dest: in_set_takeD)

lemma wf_probe_name:
  assumes "wf_component nm"
  shows "wf_component (name_stem nm @ ''_'' @ str_nat j @ name_suffix nm)"
proof -
  from assms have "CHR ''/'' \<notin> set nm" by (simp add: wf_component_def)
  with name_suffix_chars [of nm] name_stem_chars [of nm] str_nat_no_slash [of j]
  have "CHR ''/'' \<notin> set (name_stem nm @ ''_'' @ str_nat j @ name_suffix nm)"
    by auto
  moreover have "name_stem nm @ ''_'' @ str_nat j @ name_suffix nm \<noteq> ''.''"
  proof
    assume "name_stem nm @ ''_'' @ str_nat j @ name_suffix nm = ''.''"
    then have "set (name_stem nm @ ''_'' @ str_nat j @ name_suffix nm) = set ''.''" by simp
    then show False by auto
  qed
  ultimately show ?thesis by (simp add: wf_component_def)
qed

lemma wf_get_unique_path:
  assumes "wf_path folder" and "wf_component nm"
  shows "wf_path (get_unique_path fs (folder @ [nm]))"
proof (cases "path_exists fs (folder @ [nm])")
  case False
  with assms show ?thesis by (simp add: get_unique_path_def wf_path_def)
next
  case True
  from probe_free [of fs folder "name_stem nm" "name_suffix nm" 1] obtain j
    where "probe fs folder (name_stem nm) (name_suffix nm) 1 =
             folder @ [name_stem nm @ ''_'' @ str_nat j @ name_suffix nm]"
    by blast
  with True assms wf_probe_name [OF assms(2), of j] show ?thesis
    by (simp add: get_unique_path_def wf_path_def path_parent_def path_stem_def path_suffix_def
          path_name_def)
qed

lemma wf_path_name: "wf_path p \<Longrightarrow> p \<noteq> [] \<Longrightarrow> wf_component (path_name p)"
  by (simp add: wf_path_def path_name_def list_all_iff)

subsection \<open>The shape of a successful run\<close>

lemma shutil_move_fresh_perms:
  assumes "shutil_move fs ro src dst = Inr fs'" and "\<not> path_exists fs dst"
    and "map_of fs src = Some f" and "\<not> is_dir f" and "src \<noteq> []"
  shows "path_parent src \<notin> set ro \<and> path_parent dst \<notin> set ro"
proof -
  from assms(3-5) have "\<not> path_is_dir fs src"
    by (simp add: path_is_dir_def)
  moreover from assms(2) have "\<not> path_is_dir fs dst"
    by (auto dest: path_is_dir_exists)
  moreover from assms(2,3) have "src \<noteq> dst"
    by (auto simp: path_exists_def)
  ultimately show ?thesis
    using assms
    by (auto simp: shutil_move_def os_rename_def copy2_def os_unlink_def Let_def
          map_of_fs_update split: if_splits sum.splits option.splits)
qed

lemma organize_move_shape:
  assumes "organize_move org w p sz h c = Inr (r, w')"
    and "map_of (files w) p = Some f" and "\<not> is_dir f" and "faults (db w) = []" and "p \<noteq> []"
  shows "\<exists>fs1. mkdir_parents (files w) (readonly_dirs w) (clock w)
                 (joinpath (organized_folder (org_config org)) c) = Inr fs1 \<and>
           path_parent p \<notin> set (readonly_dirs w) \<and>
           joinpath (organized_folder (org_config org)) c \<notin> set (readonly_dirs w) \<and>
           files w' = fs_update (get_unique_path fs1
                                  (joinpath (organized_folder (org_config org)) c @ [path_name p])) f
                        (fs_delete p fs1) \<and>
           readonly_dirs w' = readonly_dirs w \<and> clock w' = clock w \<and> cwd w' = cwd w \<and>
           faults (db w') = [] \<and> op_seq (db w') = Suc (op_seq (db w)) \<and>
           file_operations (db w') = file_operations (db w) @
             [\<lparr>op_id = int (op_seq (db w)) + 1, op_timestamp = clock w, op_filename = path_name p,
               original_path = str_path p,
               destination_path = str_path (get_unique_path fs1
                                    (joinpath (organized_folder (org_config org)) c @ [path_name p])),
               op_category = c, operation_type = ''organize'', op_file_size = sz, op_file_hash = h,
               success = True, error_message = None, can_undo = True\<rparr>]"
proof -
  let ?folder = "joinpath (organized_folder (org_config org)) c"
  from assms(1) obtain fs1
    where mk: "mkdir_parents (files w) (readonly_dirs w) (clock w) ?folder = Inr fs1"
    by (auto simp: organize_move_def Let_def split: sum.splits)
  let ?dest = "get_unique_path fs1 (?folder @ [path_name p])"
  from assms(1) mk obtain fs2 where mv: "shutil_move fs1 (readonly_dirs w) p ?dest = Inr fs2"
    by (auto simp: organize_move_def Let_def split: sum.splits)
  from mk assms(2) have "map_of fs1 p = Some f"
    by (rule mkdir_parents_Inr(2))
  from shutil_move_fresh_perms [OF mv get_unique_path_free this assms(3,5)]
  have perms: "path_parent p \<notin> set (readonly_dirs w)" "?folder \<notin> set (readonly_dirs w)"
    by (simp_all add: get_unique_path_parent)
  from assms(4) have nf: "\<not> connection_fails (db w)"
    by (simp add: connection_fails_def)
  from organize_move_moves [OF assms(2,3) mk perms, of sz h] assms(1)
  have "w' = w\<lparr>files := fs_update ?dest f (fs_delete p fs1),
                 db := update_statistics (clock w)
                         (snd (log_operation (clock w) (db w) (path_name p) (str_path p)
                                 (str_path ?dest) c ''organize'' sz h True None))
                         c 1 sz 0 0,
                 stats_processed := Suc (stats_processed w)\<rparr>"
    by simp
  with mk perms nf assms(4) show ?thesis
    by (simp add: update_statistics_other_tables log_operation_other_tables
          log_operation_file_operations log_operation_def get_connection_ok insert_operation_def
          Let_def)
qed

lemma organize_duplicate_shape:
  assumes "organize_duplicate org w p sz h = Inr (r, w')"
    and "map_of (files w) p = Some f" and "\<not> is_dir f" and "faults (db w) = []" and "p \<noteq> []"
  shows "\<exists>fs1. mkdir_parents (files w) (readonly_dirs w) (clock w)
                 (duplicate_folder (org_config org)) = Inr fs1 \<and>
           path_parent p \<notin> set (readonly_dirs w) \<and>
           duplicate_folder (org_config org) \<notin> set (readonly_dirs w) \<and>
           files w' = fs_update (get_unique_path fs1
                                  (duplicate_folder (org_config org) @ [path_name p])) f
                        (fs_delete p fs1) \<and>
           readonly_dirs w' = readonly_dirs w \<and> clock w' = clock w \<and> cwd w' = cwd w \<and>
           faults (db w') = [] \<and> op_seq (db w') = Suc (op_seq (db w)) \<and>
           file_operations (db w') = file_operations (db w) @
             [\<lparr>op_id = int (op_seq (db w)) + 1, op_timestamp = clock w, op_filename = path_name p,
               original_path = str_path p,
               destination_path = str_path (get_unique_path fs1
                                    (duplicate_folder (org_config org) @ [path_name p])),
               op_category = ''Duplicates'', operation_type = ''duplicate'', op_file_size = sz,
               op_file_hash = Some h, success = True, error_message = None, can_undo = True\<rparr>]"
proof -
  let ?folder = "duplicate_folder (org_config org)"
  from assms(1) obtain fs1
    where mk: "mkdir_parents (files w) (readonly_dirs w) (clock w) ?folder = Inr fs1"
    by (auto simp: organize_duplicate_def Let_def split: sum.splits)
  let ?dest = "get_unique_path fs1 (?folder @ [path_name p])"
  from assms(1) mk obtain fs2 where mv: "shutil_move fs1 (readonly_dirs w) p ?dest = Inr fs2"
    by (auto simp: organize_duplicate_def Let_def split: sum.splits)
  from mk assms(2) have "map_of fs1 p = Some f"
    by (rule mkdir_parents_Inr(2))
  from shutil_move_fresh_perms [OF mv get_unique_path_free this assms(3,5)]
  have perms: "path_parent p \<notin> set (readonly_dirs w)" "?folder \<notin> set (readonly_dirs w)"
    by (simp_all add: get_unique_path_parent)
  from assms(4) have nf: "\<not> connection_fails (db w)"
    by (simp add: connection_fails_def)
  from organize_duplicate_moves [OF assms(2,3) mk perms, of sz h] assms(1)
  have "w' = w\<lparr>files := fs_update ?dest f (fs_delete p fs1),
                 db := update_statistics (clock w)
                         (snd (log_operation (clock w) (db w) (path_name p) (str_path p)
                                 (str_path ?dest) ''Duplicates'' ''duplicate'' sz (Some h) True None))
                         ''Duplicates'' 1 sz 1 0,
                 stats_duplicates := Suc (stats_duplicates w),
                 stats_processed := Suc (stats_processed w)\<rparr>"
    by simp
  with mk perms nf assms(4) show ?thesis
    by (simp add: update_statistics_other_tables log_operation_other_tables
          log_operation_file_operations log_operation_def get_connection_ok insert_operation_def
          Let_def)
qed

lemma organize_try_shape:
  assumes "organize_try org w p sz = Inr (r, w')"
    and "map_of (files w) p = Some f" and "\<not> is_dir f" and "faults (db w) = []" and "p \<noteq> []"
  shows "\<exists>folder fs1 dest.
           (folder = duplicate_folder (org_config org) \<or>
            (\<exists>c. folder = joinpath (organized_folder (org_config org)) c)) \<and>
           moved_to org w p f w' folder fs1 dest"
proof -
  have via_move: ?thesis
    if m: "organize_move org (w\<lparr>db := d\<rparr>) p sz h c = Inr (r, w')"
      and d: "faults d = []" "file_operations d = file_operations (db w)" for d h c
  proof -
    from organize_move_shape [OF m] assms(2,3,5) d(1) obtain fs1 where
      "mkdir_parents (files w) (readonly_dirs w) (clock w)
         (joinpath (organized_folder (org_config org)) c) = Inr fs1"
      "path_parent p \<notin> set (readonly_dirs w)"
      "joinpath (organized_folder (org_config org)) c \<notin> set (readonly_dirs w)"
      "files w' = fs_update (get_unique_path fs1
                    (joinpath (organized_folder (org_config org)) c @ [path_name p])) f (fs_delete p fs1)"
      "readonly_dirs w' = readonly_dirs w" "clock w' = clock w" "cwd w' = cwd w" "faults (db w') = []"
      "\<exists>row. file_operations (db w') = file_operations d @ [row] \<and>
            original_path row = str_path p \<and>
            destination_path row = str_path (get_unique_path fs1
                    (joinpath (organized_folder (org_config org)) c @ [path_name p])) \<and>
            success row \<and> can_undo row \<and> op_filename row = path_name p"
      by auto
    with d(2) have "moved_to org w p f w' (joinpath (organized_folder (org_config org)) c) fs1
                      (get_unique_path fs1
                         (joinpath (organized_folder (org_config org)) c @ [path_name p]))"
      unfolding moved_to_def by auto
    then show ?thesis by blast
  qed
  have via_dup: ?thesis
    if m: "organize_duplicate org (w\<lparr>db := d\<rparr>) p sz h = Inr (r, w')"
      and d: "faults d = []" "file_operations d = file_operations (db w)" for d h
  proof -
    from organize_duplicate_shape [OF m] assms(2,3,5) d(1) obtain fs1 where
      "mkdir_parents (files w) (readonly_dirs w) (clock w) (duplicate_folder (org_config org)) = Inr fs1"
      "path_parent p \<notin> set (readonly_dirs w)"
      "duplicate_folder (org_config org) \<notin> set (readonly_dirs w)"
      "files w' = fs_update (get_unique_path fs1
                    (duplicate_folder (org_config org) @ [path_name p])) f (fs_delete p fs1)"
      "readonly_dirs w' = readonly_dirs w" "clock w' = clock w" "cwd w' = cwd w" "faults (db w') = []"
      "\<exists>row. file_operations (db w') = file_operations d @ [row] \<and>
            original_path row = str_path p \<and>
            destination_path row = str_path (get_unique_path fs1
                    (duplicate_folder (org_config org) @ [path_name p])) \<and>
            success row \<and> can_undo row \<and> op_filename row = path_name p"
      by auto
    with d(2) have "moved_to org w p f w' (duplicate_folder (org_config org)) fs1
                      (get_unique_path fs1 (duplicate_folder (org_config org) @ [path_name p]))"
      unfolding moved_to_def by auto
    then show ?thesis by blast
  qed
  show ?thesis
  proof (cases "enable_duplicates (org_config org)")
    case False
    with assms(1) have "organize_move org (w\<lparr>db := db w\<rparr>) p sz None (classify_stage org w p) = Inr (r, w')"
      by (auto simp: organize_try_def split: sum.splits)
    then show ?thesis
      using assms(4) by (rule via_move) simp
  next
    case True
    show ?thesis
    proof (cases "compute_hash (files w) p")
      case (Inl e)
      with assms(1) True show ?thesis by (simp add: organize_try_def)
    next
      case (Inr h)
      obtain is_dup d1 where a: "add_duplicate_hash (clock w) (db w) h (str_path p) sz = (is_dup, d1)"
        by (cases "add_duplicate_hash (clock w) (db w) h (str_path p) sz")
      with add_duplicate_hash_other_tables [of "clock w" "db w" h "str_path p" sz] assms(4)
      have d: "faults d1 = []" "file_operations d1 = file_operations (db w)"
        by simp_all
      show ?thesis
      proof (cases is_dup)
        case True
        with assms(1) \<open>enable_duplicates (org_config org)\<close> Inr a
        have "organize_duplicate org (w\<lparr>db := d1\<rparr>) p sz h = Inr (r, w')"
          by (auto simp: organize_try_def Let_def split: sum.splits)
        then show ?thesis using d by (rule via_dup)
      next
        case False
        with assms(1) \<open>enable_duplicates (org_config org)\<close> Inr a
        have "organize_move org (w\<lparr>db := d1\<rparr>) p sz (Some h) (classify_stage org w p) = Inr (r, w')"
          by (auto simp: organize_try_def Let_def split: sum.splits)
        then show ?thesis using d by (rule via_move)
      qed
    qed
  qed
qed

lemma organize_file_success_shape:
  assumes "organize_file org w p = ((True, msg, cat, sz), w')" and "faults (db w) = []"
  shows "\<exists>f folder fs1 dest.
           map_of (files w) p = Some f \<and> \<not> is_dir f \<and> p \<noteq> [] \<and>
           (folder = duplicate_folder (org_config org) \<or>
            (\<exists>c. folder = joinpath (organized_folder (org_config org)) c)) \<and>
           moved_to org w p f w' folder fs1 dest"
proof (cases "\<not> path_exists (files w) p \<or> \<not> path_is_file (files w) p")
  case True
  with assms show ?thesis by (simp add: organize_file_def)
next
  case False
  then obtain f where f: "map_of (files w) p = Some f" "\<not> is_dir f" "p \<noteq> []"
    by (auto simp: path_is_file_def split: option.splits)
  then have st: "stat (files w) p = Inr f"
    by (simp add: stat_def)
  show ?thesis
  proof (cases "size_mb_gt (st_size f) (max_file_size_mb (org_config org))")
    case True
    with False st assms show ?thesis by (simp add: organize_file_def Let_def)
  next
    case small: False
    show ?thesis
    proof (cases "organize_try org w p (st_size f)")
      case (Inl ehw)
      with False st small assms(1) show ?thesis
        by (cases ehw) (simp add: organize_file_def Let_def organize_except_def)
    next
      case (Inr rw)
      with False st small assms(1)
      have "organize_try org w p (st_size f) = Inr ((True, msg, cat, sz), w')"
        by (simp add: organize_file_def Let_def)
      from organize_try_shape [OF this f(1,2) assms(2) f(3)] f show ?thesis by blast
    qed
  qed
qed

subsection \<open>Undo\<close>

lemma undo_restores:
  assumes f0: "faults (db w) = []"
    and ops: "file_operations (db w) = ops @ [row]"
    and o: "original_path row = str_path p" and d: "destination_path row = str_path dest"
    and wf: "wf_path p" "wf_path dest"
    and at: "map_of (files w) dest = Some f" "\<not> is_dir f"
    and free: "map_of (files w) p = None" "p \<noteq> []"
    and par: "path_is_dir (files w) (path_parent p)"
    and perms: "path_parent p \<notin> set (readonly_dirs w)" "path_parent dest \<notin> set (readonly_dirs w)"
  shows "fst (undo_operation w (op_id row) True) = Restored \<and>
         files (snd (undo_operation w (op_id row) True)) = fs_update p f (fs_delete dest (files w)) \<and>
         file_operations (db (snd (undo_operation w (op_id row) True))) =
           map (\<lambda>e. if op_id e = op_id row then e\<lparr>can_undo := False\<rparr> else e) (ops @ [row]) @
           [\<lparr>op_id = int (op_seq (db w)) + 1, op_timestamp = clock w, op_filename = op_filename row,
             original_path = str_path dest, destination_path = str_path p, op_category = ''Undo'',
             operation_type = ''undo'', op_file_size = op_file_size row, op_file_hash = None,
             success = True, error_message = None, can_undo = True\<rparr>]"
proof -
  let ?d0 = "(db w)\<lparr>faults := tl (faults (db w))\<rparr>"
  from f0 have nf: "\<not> connection_fails (db w)" "\<not> connection_fails ?d0"
    by (simp_all add: connection_fails_def)
  have hist: "get_operation_history (db w) 1000 = (row # take 999 (rev ops), ?d0)"
    using nf(1) ops by (simp add: get_operation_history_def get_connection_ok)
  have found: "find (\<lambda>e. op_id e = op_id row) (row # take 999 (rev ops)) = Some row"
    by simp
  have src: "joinpath (cwd w) (destination_path row) = dest"
    and dst: "joinpath (cwd w) (original_path row) = p"
    using o d wf by (simp_all add: joinpath_str_path)
  have ex: "path_exists (files w) dest"
    using at by (simp add: path_exists_def)
  have mk: "mkdir_parents (files w) (readonly_dirs w) (clock w) (path_parent p) = Inr (files w)"
    using par by (rule mkdir_parents_existing)
  have "\<not> path_exists (files w) p"
    using free by (simp add: path_exists_def)
  with at par perms
  have mv: "shutil_move (files w) (readonly_dirs w) dest p =
              Inr (fs_update p f (fs_delete dest (files w)))"
    by (intro move_file_to_fresh) simp_all
  let ?d1 = "mark_operation_undone ?d0 (op_id row)"
  have d1: "file_operations ?d1 =
              map (\<lambda>e. if op_id e = op_id row then e\<lparr>can_undo := False\<rparr> else e) (ops @ [row])"
    "op_seq ?d1 = op_seq (db w)" "\<not> connection_fails ?d1"
    using nf(2) ops f0
    by (simp_all add: mark_operation_undone_def get_connection_ok set_undone_def connection_fails_def)
  have u: "undo_operation w (op_id row) True =
             (Restored,
              w\<lparr>db := ?d0, files := fs_update p f (fs_delete dest (files w)),
                db := snd (log_operation (clock w) ?d1 (op_filename row) (str_path dest) (str_path p)
                             ''Undo'' ''undo'' (op_file_size row) None True None)\<rparr>)"
    by (simp add: undo_operation_def hist found src dst ex mk mv Let_def)
  show ?thesis
    by (simp add: u log_operation_file_operations d1)
qed

text \<open>
  The round trip from \<open>organize_file\<close>. A file is organized with success (as an ordinary
  move or as a duplicate) while the ledger's connections work, and the logged operation
  is undone at once, the dialog confirmed. The undo reports success; the file is back at
  its original path and the recorded destination is free again; the entry, eligible
  before, is no longer eligible; and the ledger ends with a new successful entry of kind
  \<open>undo\<close> that runs from the recorded destination to the original path.
\<close>

lemma organize_then_undo:
  assumes run: "organize_file org w p = ((True, msg, cat, sz), w1)"
    and f0: "faults (db w) = []"
    and wf: "wf_path p" "wf_path (organized_folder (org_config org))"
      "wf_path (duplicate_folder (org_config org))"
    and par: "path_is_dir (files w) (path_parent p)"
  shows "file_operations (db w1) \<noteq> [] \<and>
         (let e = last (file_operations (db w1));
              w2 = snd (undo_operation w1 (op_id e) True);
              dest = joinpath (cwd w1) (destination_path e)
          in success e \<and> can_undo e \<and> original_path e = str_path p \<and>
             map_of (files w1) p = None \<and> map_of (files w1) dest = map_of (files w) p \<and>
             fst (undo_operation w1 (op_id e) True) = Restored \<and>
             map_of (files w2) p = map_of (files w) p \<and> map_of (files w2) dest = None \<and>
             butlast (file_operations (db w2)) =
               map (\<lambda>x. if op_id x = op_id e then x\<lparr>can_undo := False\<rparr> else x)
                 (file_operations (db w1)) \<and>
             \<not> can_undo (butlast (file_operations (db w2)) ! (length (file_operations (db w1)) - 1)) \<and>
             operation_type (last (file_operations (db w2))) = ''undo'' \<and>
             success (last (file_operations (db w2))) \<and>
             original_path (last (file_operations (db w2))) = destination_path e \<and>
             destination_path (last (file_operations (db w2))) = str_path p)"
proof -
  from organize_file_success_shape [OF run f0] obtain f folder fs1 dest
    where f: "map_of (files w) p = Some f" "\<not> is_dir f" "p \<noteq> []"
      and fo: "folder = duplicate_folder (org_config org) \<or>
               (\<exists>c. folder = joinpath (organized_folder (org_config org)) c)"
      and m: "moved_to org w p f w1 folder fs1 dest"
    by blast
  from m obtain row
    where mk: "mkdir_parents (files w) (readonly_dirs w) (clock w) folder = Inr fs1"
      and dest: "dest = get_unique_path fs1 (folder @ [path_name p])"
      and perms: "path_parent p \<notin> set (readonly_dirs w)" "folder \<notin> set (readonly_dirs w)"
      and fs: "files w1 = fs_update dest f (fs_delete p fs1)"
      and same: "readonly_dirs w1 = readonly_dirs w" "clock w1 = clock w" "cwd w1 = cwd w"
      and f1: "faults (db w1) = []"
      and ops: "file_operations (db w1) = file_operations (db w) @ [row]"
      and row: "original_path row = str_path p" "destination_path row = str_path dest"
        "success row" "can_undo row"
    unfolding moved_to_def by blast
  from fo wf(2,3) have "wf_path folder"
    by (auto intro: wf_joinpath)
  with wf(1) f(3) have wfd: "wf_path dest"
    unfolding dest by (intro wf_get_unique_path wf_path_name)
  have pd: "path_parent dest = folder"
    unfolding dest by (rule get_unique_path_parent)
  have fresh: "map_of fs1 dest = None"
    using get_unique_path_free [of fs1 "folder @ [path_name p]"] by (simp add: dest path_exists_def)
  have s1: "map_of fs1 p = Some f"
    using mk f(1) by (rule mkdir_parents_Inr(2))
  with fresh have ne: "dest \<noteq> p" by auto
  have at: "map_of (files w1) dest = Some f" and gone: "map_of (files w1) p = None"
    using ne by (simp_all add: fs map_of_fs_update map_of_fs_delete)
  have par1: "path_is_dir (files w1) (path_parent p)"
  proof (cases "path_parent p = []")
    case True
    then show ?thesis by (simp add: path_is_dir_def)
  next
    case False
    with par obtain g where g: "map_of (files w) (path_parent p) = Some g" "is_dir g"
      by (auto simp: path_is_dir_def split: option.splits)
    from mk g(1) have g1: "map_of fs1 (path_parent p) = Some g"
      by (rule mkdir_parents_Inr(2))
    with fresh have "path_parent p \<noteq> dest" by auto
    moreover from f(3) have "path_parent p \<noteq> p"
      by (metis path_parent_def append_butlast_last_id self_append_conv snoc_eq_iff_butlast not_Cons_self2)
    ultimately show ?thesis
      using g1 g(2) by (simp add: path_is_dir_def fs map_of_fs_update map_of_fs_delete)
  qed
  from perms pd have perms1: "path_parent p \<notin> set (readonly_dirs w1)"
    "path_parent dest \<notin> set (readonly_dirs w1)"
    by (simp_all add: same)
  note u = undo_restores [OF f1 ops row(1,2) wf(1) wfd at f(2) gone f(3) par1 perms1]
  let ?w2 = "snd (undo_operation w1 (op_id row) True)"
  from u have u1: "fst (undo_operation w1 (op_id row) True) = Restored"
    and u2: "files ?w2 = fs_update p f (fs_delete dest (files w1))"
    and u3: "file_operations (db ?w2) =
               map (\<lambda>e. if op_id e = op_id row then e\<lparr>can_undo := False\<rparr> else e)
                 (file_operations (db w) @ [row]) @
               [\<lparr>op_id = int (op_seq (db w1)) + 1, op_timestamp = clock w1, op_filename = op_filename row,
                 original_path = str_path dest, destination_path = str_path p, op_category = ''Undo'',
                 operation_type = ''undo'', op_file_size = op_file_size row, op_file_hash = None,
                 success = True, error_message = None, can_undo = True\<rparr>]"
    by blast+
  have home: "map_of (files ?w2) p = Some f" and empty: "map_of (files ?w2) dest = None"
    using ne by (simp_all add: u2 map_of_fs_update map_of_fs_delete)
  have last_row: "last (file_operations (db w1)) = row"
    by (simp add: ops)
  have jd: "joinpath (cwd w1) (str_path dest) = dest"
    using wfd by (rule joinpath_str_path)
  have flag: "\<not> can_undo (butlast (file_operations (db ?w2)) ! (length (file_operations (db w1)) - 1))"
    by (simp add: u3 ops butlast_append nth_append)
  show ?thesis
    using row f(1) at gone u1 home empty flag
    by (simp add: last_row jd Let_def) (simp add: u3 ops row butlast_append)
qed






text \<open>
  Each connection the undo opens can fail, and no failure reaches the user. When the
  history cannot be read the operation is not found; when the mark fails the file is
  restored and the entry stays eligible; when the log fails the file is restored and no
  \<open>undo\<close> entry is written.
\<close>

lemma undo_with_failing_connections:
  "fst (undo_operation (cx_fault_world [True]) 1 True) = OperationNotFound \<and>
   fst (undo_operation (cx_fault_world [False, True]) 1 True) = Restored \<and>
   map_of (files (snd (undo_operation (cx_fault_world [False, True]) 1 True))) [''watch'', ''a.txt''] =
     Some ex_file \<and>
   map can_undo (file_operations (db (snd (undo_operation (cx_fault_world [False, True]) 1 True)))) =
     [True, True] \<and>
   fst (undo_operation (cx_fault_world [False, False, True]) 1 True) = Restored \<and>
   map_of (files (snd (undo_operation (cx_fault_world [False, False, True]) 1 True)))
     [''watch'', ''a.txt''] = Some ex_file \<and>
   map operation_type
     (file_operations (db (snd (undo_operation (cx_fault_world [False, False, True]) 1 True)))) =
     [''organize'']"
  by (simp add: cx_fault_world_def cx_after_first_def run_defs undo_defs size_mb_gt_exact)

text \<open>
  The undo looks the entry up among the thousand newest: an entry with a thousand newer
  ones after it is not found, and nothing changes but the connection that was used.
\<close>

lemma undo_entry_out_of_reach:
  assumes "file_operations (db w) = older @ [row] @ newer" and "1000 \<le> length newer"
    and "op_id row \<notin> op_id ` set newer"
  shows "undo_operation w (op_id row) confirmed =
           (OperationNotFound, w\<lparr>db := (db w)\<lparr>faults := tl (faults (db w))\<rparr>\<rparr>)"
proof -
  have "take 1000 (rev (file_operations (db w))) = take 1000 (rev newer)"
    using assms(1,2) by simp
  moreover have none: "find (\<lambda>e. op_id e = op_id row) (take 1000 (rev newer)) = None"
  proof -
    have "op_id e \<noteq> op_id row" if "e \<in> set (take 1000 (rev newer))" for e
    proof -
      from that have "e \<in> set newer" by (auto dest: in_set_takeD)
      with assms(3) show ?thesis by (metis imageI)
    qed
    then show ?thesis by (simp add: find_None_iff)
  qed
  ultimately have "get_operation_history (db w) 1000 = ([], (db w)\<lparr>faults := tl (faults (db w))\<rparr>) \<or>
                   get_operation_history (db w) 1000 =
                     (take 1000 (rev newer), (db w)\<lparr>faults := tl (faults (db w))\<rparr>)"
    by (cases "connection_fails (db w)")
      (simp_all add: get_operation_history_def get_connection_fails get_connection_ok)
  with none show ?thesis
    by (auto simp: undo_operation_def Let_def)
qed

text \<open>
  When the move back raises, the handler reports the failure and the ledger is not
  written: the entry stays eligible and no \<open>undo\<close> entry appears. With the folder of the
  recorded destination closed to changes, the file has been copied to its original path
  by then and is at both places.
\<close>

lemma undo_operation_raises:
  assumes "find (\<lambda>e. op_id e = i) (take 1000 (rev (file_operations (db w)))) = Some row"
    and "\<not> connection_fails (db w)"
    and "path_exists (files w) (joinpath (cwd w) (destination_path row))"
    and "mkdir_parents (files w) (readonly_dirs w) (clock w)
           (path_parent (joinpath (cwd w) (original_path row))) = Inr fs1"
    and "shutil_move fs1 (readonly_dirs w) (joinpath (cwd w) (destination_path row))
           (joinpath (cwd w) (original_path row)) = Inl (e, fs')"
  shows "undo_operation w i True =
           (UndoFailed e, w\<lparr>db := (db w)\<lparr>faults := tl (faults (db w))\<rparr>, files := fs'\<rparr>)"
  using assms
  by (simp add: undo_operation_def get_operation_history_def get_connection_ok Let_def)

lemma undo_from_readonly_folder:
  "fst (undo_operation cx_readonly_world 1 True) =
     UndoFailed (OSError 13 ''Permission denied'' ''/organized/Documents/a.txt'') \<and>
   map_of (files (snd (undo_operation cx_readonly_world 1 True))) [''watch'', ''a.txt''] =
     Some ex_file \<and>
   map_of (files (snd (undo_operation cx_readonly_world 1 True)))
     [''organized'', ''Documents'', ''a.txt''] = Some ex_file \<and>
   file_operations (db (snd (undo_operation cx_readonly_world 1 True))) =
     file_operations (db cx_readonly_world)"
  by (simp add: cx_readonly_world_def cx_after_first_def run_defs undo_defs size_mb_gt_exact)

end
